theory Spec2Isabelle
  imports Main "HOL-Library.Word"
begin

section \<open>Data model\<close>

text \<open>
  Pointers of the Go program are modelled by explicit identities: a \<open>*Connection\<close> is a
  natural number naming a cell of a connection heap, a \<open>*Network\<close> a natural number
  naming a listener. A \<open>*PeerInfo\<close> is identified with the registry entry stored under
  its compressed public key. Byte strings are lists of 8-bit words. The functions are
  modelled as they run alone: the mutexes that guard the lists against the other
  goroutines have no counterpart here.
\<close>

type_synonym byte = "8 word"

type_synonym conn_ptr = nat

text \<open>\<open>time.Time\<close> and \<open>time.Duration\<close> in nanoseconds (a Duration is an int64 count of
  nanoseconds; the offsets used here are far from its bounds).\<close>

type_synonym Time = int

type_synonym Duration = int

definition Second :: Duration where
  "Second = 1000000000"

definition time_Add :: "Time \<Rightarrow> Duration \<Rightarrow> Time" where
  "time_Add t d = t + d"

definition Before :: "Time \<Rightarrow> Time \<Rightarrow> bool" where
  "Before t u = (t < u)"

subsection \<open>Commands.go: command codes and packets\<close>

definition CommandAnnouncement :: nat where "CommandAnnouncement = 0"
definition CommandResponse :: nat where "CommandResponse = 1"
definition CommandPing :: nat where "CommandPing = 2"
definition CommandPong :: nat where "CommandPong = 3"
definition CommandGet :: nat where "CommandGet = 4"
definition CommandChat :: nat where "CommandChat = 10"

text \<open>The fields of \<open>PacketRaw\<close> that the handlers set; a field left out of a Go composite
  literal is the zero value, here the empty payload.\<close>

record PacketRaw =
  Command :: nat
  Payload :: "byte list"

definition mkPacket :: "nat \<Rightarrow> PacketRaw" where
  "mkPacket c = \<lparr>Command = c, Payload = []\<rparr>"

record 'pk packet2 =
  Raw :: PacketRaw
  SenderPublicKey :: 'pk
  connection :: conn_ptr

subsection \<open>Connections\<close>

text \<open>Modelled from the spec: the \<open>Connection\<close> struct and its status constants are declared
  outside the available sources. The spec gives a connection a remote address, a status
  (Active, Redundant, Inactive), the timestamps of the last inbound packet and the last
  outbound ping, and an expiry timestamp used while inactive; these are exactly the
  fields that Commands.go reads and writes.\<close>

datatype ConnectionStatus = ConnectionActive | ConnectionInactive | ConnectionRedundant

record Connection =
  Address :: string
  Status :: ConnectionStatus
  LastPacketIn :: Time
  LastPingOut :: Time
  Expires :: Time

subsection \<open>Peer ID.go: PeerInfo and the peer list\<close>

record 'pk PeerInfo =
  PublicKey :: 'pk
  connectionActive :: "conn_ptr list"
  connectionInactive :: "conn_ptr list"
  connectionLatest :: "conn_ptr option"
  StatsPacketSent :: "64 word"
  StatsPacketReceived :: "64 word"

text \<open>\<open>peerList\<close> is a Go map from the 33-byte compressed key to the peer.\<close>

type_synonym 'pk peerList = "byte list \<rightharpoonup> 'pk PeerInfo"

definition PubKeyBytesLenCompressed :: nat where
  "PubKeyBytesLenCompressed = 33"

text \<open>\<open>publicKey2Compressed\<close>: \<open>copy\<close> into a zeroed 33-byte array copies at most 33 bytes
  and leaves the rest zero. The serialisation \<open>SerializeCompressed\<close> belongs to the
  elliptic-curve library and is a parameter \<open>ser\<close>.\<close>

definition publicKey2Compressed :: "('pk \<Rightarrow> byte list) \<Rightarrow> 'pk \<Rightarrow> byte list" where
  "publicKey2Compressed ser publicKey =
     take PubKeyBytesLenCompressed (ser publicKey @ replicate PubKeyBytesLenCompressed 0)"

text \<open>\<open>initPeerID\<close> starts with an empty map.\<close>

definition initPeerList :: "'pk peerList" where
  "initPeerList = Map.empty"

text \<open>\<open>PeerlistAdd\<close> returns the pair \<open>(peer, added)\<close> together with the peer list after the
  call; a \<open>nil\<close> peer is \<open>None\<close>.\<close>

definition PeerlistAdd ::
  "('pk \<Rightarrow> byte list) \<Rightarrow> 'pk peerList \<Rightarrow> 'pk \<Rightarrow> conn_ptr list
     \<Rightarrow> ('pk PeerInfo option \<times> bool) \<times> 'pk peerList" where
  "PeerlistAdd ser pl pk connections =
     (if length connections = 0 then ((None, False), pl)
      else (case pl (publicKey2Compressed ser pk) of
              Some peer \<Rightarrow> ((Some peer, False), pl)
            | None \<Rightarrow>
                (let peer = \<lparr>PublicKey = pk, connectionActive = connections,
                             connectionInactive = [],
                             connectionLatest = Some (connections ! 0),
                             StatsPacketSent = 0, StatsPacketReceived = 0\<rparr>
                 in ((Some peer, True),
                     pl(publicKey2Compressed ser (PublicKey peer) \<mapsto> peer)))))"

definition PeerlistLookup :: "('pk \<Rightarrow> byte list) \<Rightarrow> 'pk peerList \<Rightarrow> 'pk \<Rightarrow> 'pk PeerInfo option" where
  "PeerlistLookup ser pl publicKey = pl (publicKey2Compressed ser publicKey)"

definition PeerlistRemove :: "('pk \<Rightarrow> byte list) \<Rightarrow> 'pk peerList \<Rightarrow> 'pk PeerInfo \<Rightarrow> 'pk peerList" where
  "PeerlistRemove ser pl peer = pl(publicKey2Compressed ser (PublicKey peer) := None)"

text \<open>A run of \<open>PeerlistAdd\<close> calls, each given by its key and connections: for every
  call, in order, its result and the peer list right after it.\<close>

fun PeerlistAdd_calls ::
  "('pk \<Rightarrow> byte list) \<Rightarrow> 'pk peerList \<Rightarrow> ('pk \<times> conn_ptr list) list
     \<Rightarrow> (('pk PeerInfo option \<times> bool) \<times> 'pk peerList) list" where
  "PeerlistAdd_calls ser pl [] = []"
| "PeerlistAdd_calls ser pl ((pk, cs) # calls) =
     (let (r, pl1) = PeerlistAdd ser pl pk cs
      in (r, pl1) # PeerlistAdd_calls ser pl1 calls)"

text \<open>The keys under which the peer list holds a record of the identity \<open>k\<close>.\<close>

definition recordsFor :: "('pk \<Rightarrow> byte list) \<Rightarrow> 'pk peerList \<Rightarrow> byte list \<Rightarrow> byte list set" where
  "recordsFor ser pl k =
     {k'. case pl k' of None \<Rightarrow> False
          | Some q \<Rightarrow> publicKey2Compressed ser (PublicKey q) = k}"

text \<open>Every record sits under the compressed key of its own public key, as line 97 of
  Peer ID.go stores it.\<close>

definition keyed :: "('pk \<Rightarrow> byte list) \<Rightarrow> 'pk peerList \<Rightarrow> bool" where
  "keyed ser pl =
     (\<forall>k'. case pl k' of None \<Rightarrow> True
           | Some q \<Rightarrow> publicKey2Compressed ser (PublicKey q) = k')"

text \<open>The record that line 96 of Peer ID.go builds.\<close>

definition newPeer :: "'pk \<Rightarrow> conn_ptr list \<Rightarrow> 'pk PeerInfo" where
  "newPeer pk connections =
     \<lparr>PublicKey = pk, connectionActive = connections, connectionInactive = [],
      connectionLatest = Some (connections ! 0),
      StatsPacketSent = 0, StatsPacketReceived = 0\<rparr>"

subsection \<open>Commands.go: the announcement handler\<close>

text \<open>The handlers run on the peer list and hand packets to \<open>peer.send\<close>, whose body is
  outside the available sources: each call of it is recorded, in order, with the peer it
  was called on.\<close>

record 'pk handler_state =
  peerList :: "'pk peerList"
  sent :: "('pk PeerInfo \<times> PacketRaw) list"

definition send :: "'pk PeerInfo \<Rightarrow> PacketRaw \<Rightarrow> 'pk handler_state \<Rightarrow> 'pk handler_state" where
  "send peer pkt st = st\<lparr>sent := sent st @ [(peer, pkt)]\<rparr>"

text \<open>\<open>cmdAnouncement\<close>, the receiver \<open>peer\<close> being \<open>None\<close> for \<open>nil\<close>. In the first branch
  \<open>added\<close> is true only together with a non-nil peer (lemma \<open>PeerlistAdd_added_iff\<close>
  and \<open>PeerlistAdd_fresh\<close>), so the \<open>None\<close> case under \<open>added\<close> is never taken.\<close>

definition cmdAnouncement ::
  "('pk \<Rightarrow> byte list) \<Rightarrow> 'pk PeerInfo option \<Rightarrow> 'pk packet2
     \<Rightarrow> 'pk handler_state \<Rightarrow> 'pk handler_state" where
  "cmdAnouncement ser peer msg st =
     (case peer of
        None \<Rightarrow>
          (let ((peer1, added), pl1) =
                 PeerlistAdd ser (peerList st) (SenderPublicKey msg) [connection msg];
               st1 = st\<lparr>peerList := pl1\<rparr>
           in if added
              then (case peer1 of Some p \<Rightarrow> send p (mkPacket CommandResponse) st1
                    | None \<Rightarrow> st1)
              else st1)
      | Some p \<Rightarrow> send p (mkPacket CommandResponse) st)"

subsection \<open>Network Detection.go: classifying send errors\<close>

text \<open>A Go \<open>error\<close> is \<open>None\<close> for \<open>nil\<close> and otherwise carries the text of \<open>err.Error()\<close>.
  \<open>strings.Contains s substr\<close> tells whether \<open>substr\<close> occurs in \<open>s\<close> as a contiguous run
  of bytes.\<close>

fun HasPrefix :: "string \<Rightarrow> string \<Rightarrow> bool" where
  "HasPrefix s [] = True"
| "HasPrefix [] (p # ps) = False"
| "HasPrefix (c # s) (p # ps) = (c = p \<and> HasPrefix s ps)"

fun Contains :: "string \<Rightarrow> string \<Rightarrow> bool" where
  "Contains [] substr = HasPrefix [] substr"
| "Contains (c # s) substr = (HasPrefix (c # s) substr \<or> Contains s substr)"

definition addressNotValid :: string where
  "addressNotValid = ''requested address is not valid in its context''"

definition IsNetworkErrorFatal :: "string option \<Rightarrow> bool" where
  "IsNetworkErrorFatal err =
     (case err of
        None \<Rightarrow> False
      | Some e \<Rightarrow> if Contains e addressNotValid then True else False)"

subsection \<open>Commands.go: the keep-alive loop\<close>

definition pingTime :: int where
  "pingTime = 10"

definition connectionInvalidate :: int where
  "connectionInvalidate = 22"

definition connectionRemove :: int where
  "connectionRemove = 2 * 60"

text \<open>The state that the loop body for one peer works on: the peer, the heap of
  connections that the \<open>*Connection\<close> pointers name, and the packets handed to
  \<open>sendConnection\<close> so far, each with the connection it was sent on.\<close>

record 'pk peer_state =
  ps_peer :: "'pk PeerInfo"
  ps_conns :: "conn_ptr \<Rightarrow> Connection"
  ps_wire :: "(PacketRaw \<times> conn_ptr) list"

text \<open>Modelled from the spec: \<open>GetConnections\<close> is outside the available sources. It
  returns the peer's list of active connections for \<open>true\<close> and of inactive ones for
  \<open>false\<close>, as it stands at the call; the loop then runs over that list.\<close>

definition GetConnections :: "'pk PeerInfo \<Rightarrow> bool \<Rightarrow> conn_ptr list" where
  "GetConnections p active = (if active then connectionActive p else connectionInactive p)"

text \<open>Modelled from the spec: \<open>invalidateActiveConnection\<close> is outside the available
  sources. The spec has it move the connection to inactive: the connection leaves the
  active list, gets status Inactive and joins the inactive list. Its expiry, which the
  spec uses only while the connection is inactive, is set \<open>connectionRemove\<close> seconds
  ahead, the constant that Commands.go documents as the threshold to remove inactive
  connections.\<close>

definition invalidateActiveConnection :: "Time \<Rightarrow> conn_ptr \<Rightarrow> 'pk peer_state \<Rightarrow> 'pk peer_state" where
  "invalidateActiveConnection now c s =
     s\<lparr>ps_peer := (ps_peer s)
          \<lparr>connectionActive := removeAll c (connectionActive (ps_peer s)),
           connectionInactive := connectionInactive (ps_peer s) @ [c]\<rparr>,
       ps_conns := (ps_conns s)
          (c := (ps_conns s c)\<lparr>Status := ConnectionInactive,
                                Expires := time_Add now (connectionRemove * Second)\<rparr>)\<rparr>"

text \<open>Modelled from the spec: \<open>removeInactiveConnection\<close> is outside the available sources.
  A purged connection is removed from the peer's inactive list.\<close>

definition removeInactiveConnection :: "conn_ptr \<Rightarrow> 'pk peer_state \<Rightarrow> 'pk peer_state" where
  "removeInactiveConnection c s =
     s\<lparr>ps_peer := (ps_peer s)
          \<lparr>connectionInactive := removeAll c (connectionInactive (ps_peer s))\<rparr>\<rparr>"

text \<open>\<open>sendConnection\<close> is outside the available sources. Its call is recorded on
  \<open>ps_wire\<close>; the error it returns comes from the network and is the parameter
  \<open>sendErr\<close>, a function of the packet and the connection.\<close>

definition sendConnection ::
  "(PacketRaw \<Rightarrow> conn_ptr \<Rightarrow> string option) \<Rightarrow> PacketRaw \<Rightarrow> conn_ptr
     \<Rightarrow> 'pk peer_state \<Rightarrow> string option \<times> 'pk peer_state" where
  "sendConnection sendErr pkt c s = (sendErr pkt c, s\<lparr>ps_wire := ps_wire s @ [(pkt, c)]\<rparr>)"

text \<open>\<open>sendPing\<close>. One pass of the keep-alive loop is taken at one instant: each of its
  calls of \<open>time.Now()\<close> reads \<open>now\<close>.\<close>

definition stampPingOut :: "Time \<Rightarrow> conn_ptr \<Rightarrow> 'pk peer_state \<Rightarrow> 'pk peer_state" where
  "stampPingOut now c s = s\<lparr>ps_conns := (ps_conns s)(c := (ps_conns s c)\<lparr>LastPingOut := now\<rparr>)\<rparr>"

definition sendPing ::
  "(PacketRaw \<Rightarrow> conn_ptr \<Rightarrow> string option) \<Rightarrow> Time \<Rightarrow> conn_ptr
     \<Rightarrow> 'pk peer_state \<Rightarrow> 'pk peer_state" where
  "sendPing sendErr now c s =
     (let (err, s1) = sendConnection sendErr (mkPacket CommandPing) c s;
          s2 = stampPingOut now c s1
      in if (Status (ps_conns s2 c) = ConnectionActive
               \<or> Status (ps_conns s2 c) = ConnectionRedundant)
            \<and> IsNetworkErrorFatal err
         then invalidateActiveConnection now c s2
         else s2)"

text \<open>The four thresholds of lines 105 to 108.\<close>

definition thresholdInvalidate1 :: "Time \<Rightarrow> Time" where
  "thresholdInvalidate1 now = time_Add now (- connectionInvalidate * Second)"

definition thresholdInvalidate2 :: "Time \<Rightarrow> Time" where
  "thresholdInvalidate2 now = time_Add now (- connectionInvalidate * Second * 4)"

definition thresholdPingOut1 :: "Time \<Rightarrow> Time" where
  "thresholdPingOut1 now = time_Add now (- pingTime * Second)"

definition thresholdPingOut2 :: "Time \<Rightarrow> Time" where
  "thresholdPingOut2 now = time_Add now (- pingTime * Second * 4)"

text \<open>The body of the loop over the active connections (lines 113 to 129).\<close>

definition activeStep ::
  "(PacketRaw \<Rightarrow> conn_ptr \<Rightarrow> string option) \<Rightarrow> Time \<Rightarrow> conn_ptr
     \<Rightarrow> 'pk peer_state \<Rightarrow> 'pk peer_state" where
  "activeStep sendErr now c s =
     (let thresholdPing = (if Status (ps_conns s c) = ConnectionRedundant
                           then thresholdPingOut2 now else thresholdPingOut1 now);
          thresholdInv = (if Status (ps_conns s c) = ConnectionRedundant
                          then thresholdInvalidate2 now else thresholdInvalidate1 now)
      in if Before (LastPacketIn (ps_conns s c)) thresholdInv
         then invalidateActiveConnection now c s
         else if Before (LastPacketIn (ps_conns s c)) thresholdPing
                 \<and> Before (LastPingOut (ps_conns s c)) thresholdPing
         then sendPing sendErr now c s
         else s)"

text \<open>The body of the loop over the inactive connections (lines 134 to 143).\<close>

definition inactiveStep ::
  "(PacketRaw \<Rightarrow> conn_ptr \<Rightarrow> string option) \<Rightarrow> Time \<Rightarrow> conn_ptr
     \<Rightarrow> 'pk peer_state \<Rightarrow> 'pk peer_state" where
  "inactiveStep sendErr now c s =
     (if (length (connectionActive (ps_peer s)) \<ge> 1
            \<or> length (connectionInactive (ps_peer s)) > 2)
         \<and> Before (Expires (ps_conns s c)) now
      then removeInactiveConnection c s
      else if Before (LastPingOut (ps_conns s c)) (thresholdPingOut1 now)
      then sendPing sendErr now c s
      else s)"

text \<open>The two loops over one peer (lines 111 to 144): each runs over the list that
  \<open>GetConnections\<close> returned when the loop started.\<close>

definition activePass ::
  "(PacketRaw \<Rightarrow> conn_ptr \<Rightarrow> string option) \<Rightarrow> Time \<Rightarrow> 'pk peer_state \<Rightarrow> 'pk peer_state" where
  "activePass sendErr now s = fold (activeStep sendErr now) (GetConnections (ps_peer s) True) s"

definition inactivePass ::
  "(PacketRaw \<Rightarrow> conn_ptr \<Rightarrow> string option) \<Rightarrow> Time \<Rightarrow> 'pk peer_state \<Rightarrow> 'pk peer_state" where
  "inactivePass sendErr now s = fold (inactiveStep sendErr now) (GetConnections (ps_peer s) False) s"

definition autoPingPeer ::
  "(PacketRaw \<Rightarrow> conn_ptr \<Rightarrow> string option) \<Rightarrow> Time \<Rightarrow> 'pk peer_state \<Rightarrow> 'pk peer_state" where
  "autoPingPeer sendErr now s = inactivePass sendErr now (activePass sendErr now s)"

text \<open>One pass of the endless loop of \<open>autoPingAll\<close> after its sleep, at the instant \<open>now\<close>.
  \<open>PeerlistGet\<close> lists the peers in the order of Go's map iteration, which is not
  specified: the order is the parameter \<open>order\<close>, a list of keys of the peer list.\<close>

record 'pk core_state =
  cs_peers :: "'pk peerList"
  cs_conns :: "conn_ptr \<Rightarrow> Connection"
  cs_wire :: "(PacketRaw \<times> conn_ptr) list"

definition autoPingOne ::
  "(PacketRaw \<Rightarrow> conn_ptr \<Rightarrow> string option) \<Rightarrow> Time \<Rightarrow> byte list
     \<Rightarrow> 'pk core_state \<Rightarrow> 'pk core_state" where
  "autoPingOne sendErr now k w =
     (case cs_peers w k of
        None \<Rightarrow> w
      | Some p \<Rightarrow>
          (let s = autoPingPeer sendErr now
                     \<lparr>ps_peer = p, ps_conns = cs_conns w, ps_wire = cs_wire w\<rparr>
           in \<lparr>cs_peers = (cs_peers w)(k \<mapsto> ps_peer s),
               cs_conns = ps_conns s, cs_wire = ps_wire s\<rparr>))"

definition autoPingAll_tick ::
  "(PacketRaw \<Rightarrow> conn_ptr \<Rightarrow> string option) \<Rightarrow> Time \<Rightarrow> byte list list
     \<Rightarrow> 'pk core_state \<Rightarrow> 'pk core_state" where
  "autoPingAll_tick sendErr now order w = fold (autoPingOne sendErr now) order w"

text \<open>How often a ping was handed to \<open>sendConnection\<close> for the connection \<open>c\<close>.\<close>

definition pingsOn :: "(PacketRaw \<times> conn_ptr) list \<Rightarrow> conn_ptr \<Rightarrow> nat" where
  "pingsOn wire c = count_list wire (mkPacket CommandPing, c)"

text \<open>Example values for the concrete runs below.\<close>

definition exConn :: "ConnectionStatus \<Rightarrow> Time \<Rightarrow> Time \<Rightarrow> Time \<Rightarrow> Connection" where
  "exConn st lin lout ex = \<lparr>Address = ''192.0.2.7:112'', Status = st, LastPacketIn = lin, LastPingOut = lout, Expires = ex\<rparr>"

definition exPeer :: "nat \<Rightarrow> conn_ptr list \<Rightarrow> conn_ptr list \<Rightarrow> nat PeerInfo" where
  "exPeer pk act inact = \<lparr>PublicKey = pk, connectionActive = act, connectionInactive = inact,
      connectionLatest = None, StatsPacketSent = 0, StatsPacketReceived = 0\<rparr>"

definition exSer :: "nat \<Rightarrow> byte list" where
  "exSer pk = [of_nat pk]"

definition exKey :: "nat \<Rightarrow> byte list" where
  "exKey pk = publicKey2Compressed exSer pk"

text \<open>The first two statements of \<open>sendPing\<close>: the packet is handed to
  \<open>sendConnection\<close> and \<open>LastPingOut\<close> is set.\<close>

definition pinged :: "Time \<Rightarrow> conn_ptr \<Rightarrow> 'pk peer_state \<Rightarrow> 'pk peer_state" where
  "pinged now c s = stampPingOut now c (s\<lparr>ps_wire := ps_wire s @ [(mkPacket CommandPing, c)]\<rparr>)"

text \<open>Predicates on what a state shows of the connection \<open>c\<close>. \<open>staleActive\<close>: its last
  inbound packet precedes the normal invalidate threshold and it is not Redundant.
  \<open>invalidated\<close>: it has been moved to the inactive list at the instant \<open>now\<close>.
  \<open>parked\<close>: it is on the inactive list with status Inactive and has not expired.\<close>

definition staleActive :: "Time \<Rightarrow> conn_ptr \<Rightarrow> 'pk peer_state \<Rightarrow> bool" where
  "staleActive now c s =
     (Before (LastPacketIn (ps_conns s c)) (thresholdInvalidate1 now)
      \<and> Status (ps_conns s c) \<noteq> ConnectionRedundant)"

definition invalidated :: "Time \<Rightarrow> conn_ptr \<Rightarrow> 'pk peer_state \<Rightarrow> bool" where
  "invalidated now c s =
     (c \<notin> set (connectionActive (ps_peer s)) \<and> c \<in> set (connectionInactive (ps_peer s))
      \<and> Status (ps_conns s c) = ConnectionInactive
      \<and> Expires (ps_conns s c) = time_Add now (connectionRemove * Second))"

definition parked :: "Time \<Rightarrow> conn_ptr \<Rightarrow> 'pk peer_state \<Rightarrow> bool" where
  "parked now c s =
     (c \<in> set (connectionInactive (ps_peer s))
      \<and> Status (ps_conns s c) = ConnectionInactive
      \<and> \<not> Before (Expires (ps_conns s c)) now)"

text \<open>\<open>foreign w ks c\<close>: no peer stored under one of the keys \<open>ks\<close> has the connection \<open>c\<close>
  on its lists (a connection belongs to one peer).\<close>

definition foreign :: "'pk core_state \<Rightarrow> byte list list \<Rightarrow> conn_ptr \<Rightarrow> bool" where
  "foreign w ks c =
     list_all (\<lambda>k. case cs_peers w k of
                      None \<Rightarrow> True
                    | Some q \<Rightarrow> c \<notin> set (connectionActive q) \<and> c \<notin> set (connectionInactive q)) ks"

text \<open>The state on which the loop body runs for the peer \<open>p\<close>.\<close>

definition peerState :: "'pk core_state \<Rightarrow> 'pk PeerInfo \<Rightarrow> 'pk peer_state" where
  "peerState w p = \<lparr>ps_peer = p, ps_conns = cs_conns w, ps_wire = cs_wire w\<rparr>"

text \<open>An example peer list of two peers with the public keys 2 and 3, each under its
  compressed key, the first with the active connections \<open>act\<close> and the inactive ones
  \<open>inact\<close>, the second with one active connection 8 and one inactive connection 9;
  \<open>exNow\<close> is the instant of the pass, 100 seconds.\<close>

definition exNow :: Time where
  "exNow = 100000000000"

definition exWorld ::
  "conn_ptr list \<Rightarrow> conn_ptr list \<Rightarrow> (conn_ptr \<Rightarrow> Connection) \<Rightarrow> nat core_state" where
  "exWorld act inact cells =
     \<lparr>cs_peers = [exKey 2 \<mapsto> exPeer 2 act inact, exKey 3 \<mapsto> exPeer 3 [8] [9]],
      cs_conns = cells, cs_wire = []\<rparr>"

text \<open>Example states at \<open>exNow\<close>. \<open>exStaleUnpinged\<close>: connection 1 is Active, heard 25
  seconds ago and pinged 30 seconds ago. \<open>exStale\<close>: the connections 1 and 4 are Active,
  heard 25 seconds ago and pinged 2 seconds ago. \<open>exQuiet\<close>: the connections are
  Redundant and were heard 25 seconds ago. \<open>exThreeExpired\<close>: no active and three expired
  inactive connections, pinged a second ago. \<open>exOneExpired\<close>: the active connection 4,
  heard a second ago, and the expired inactive connection 1.\<close>

definition exStaleUnpinged :: "nat core_state" where
  "exStaleUnpinged = exWorld [1] [] (\<lambda>c. exConn ConnectionActive 75000000000 70000000000 0)"

definition exStale :: "nat core_state" where
  "exStale = exWorld [1, 4] [] (\<lambda>c. exConn ConnectionActive 75000000000 98000000000 0)"

definition exQuiet :: "nat core_state" where
  "exQuiet = exWorld [1, 4] [5] (\<lambda>c. exConn ConnectionRedundant 75000000000 0 0)"

definition exThreeExpired :: "nat core_state" where
  "exThreeExpired = exWorld [] [1, 2, 3] (\<lambda>c. exConn ConnectionInactive 0 99000000000 0)"

definition exOneExpired :: "nat core_state" where
  "exOneExpired =
     exWorld [4] [1]
       (\<lambda>c. if c = 1 then exConn ConnectionInactive 0 99000000000 0
            else exConn ConnectionActive 99000000000 99000000000 0)"

text \<open>\<open>quietRedundant\<close>: the connection is Redundant and its last inbound packet does not
  precede the ping threshold for redundant connections.\<close>

definition quietRedundant :: "Time \<Rightarrow> conn_ptr \<Rightarrow> 'pk peer_state \<Rightarrow> bool" where
  "quietRedundant now c s =
     (Status (ps_conns s c) = ConnectionRedundant
      \<and> \<not> Before (LastPacketIn (ps_conns s c)) (thresholdPingOut2 now))"

text \<open>The connection invariant of the spec, for one peer: no connection is twice on the
  peer's lists or on both, and the connections on the inactive list have status
  Inactive.\<close>

definition wellFormed :: "'pk peer_state \<Rightarrow> bool" where
  "wellFormed s =
     (distinct (connectionActive (ps_peer s) @ connectionInactive (ps_peer s))
      \<and> list_all (\<lambda>x. Status (ps_conns s x) = ConnectionInactive)
           (connectionInactive (ps_peer s)))"

subsection \<open>Network Detection.go: removing the listeners of an interface\<close>

text \<open>Modelled from the spec: the \<open>Network\<close> struct (the spec's Listener) is declared
  outside the available sources. Of it the monitor reads the owning interface, which is
  absent (\<open>nil\<close>) for a wildcard bind; its name is kept here.\<close>

record Network =
  net_iface :: "string option"

type_synonym net_ptr = nat

text \<open>A Go slice that starts at the beginning of its backing array: the array up to the
  capacity (a slot is \<open>None\<close> for \<open>nil\<close>) and the length. Two slices of one array share
  its slots.\<close>

record 'a slice =
  backing :: "'a option list"
  slen :: nat

definition mkSlice :: "'a list \<Rightarrow> nat \<Rightarrow> 'a slice" where
  "mkSlice xs spare = \<lparr>backing = map Some xs @ replicate spare None, slen = length xs\<rparr>"

definition elems :: "'a slice \<Rightarrow> 'a option list" where
  "elems s = take (slen s) (backing s)"

text \<open>\<open>s[:n]\<close> is allowed up to the capacity and panics (\<open>None\<close>) beyond it; \<open>s[n:]\<close> is
  allowed up to the length; its elements are returned.\<close>

definition sliceTo :: "'a slice \<Rightarrow> nat \<Rightarrow> 'a slice option" where
  "sliceTo s n = (if n \<le> length (backing s) then Some (s\<lparr>slen := n\<rparr>) else None)"

definition sliceFrom :: "'a slice \<Rightarrow> nat \<Rightarrow> 'a option list option" where
  "sliceFrom s n = (if n \<le> slen s then Some (drop n (elems s)) else None)"

text \<open>\<open>append(s, xs...)\<close> writes into the backing array of \<open>s\<close> when the capacity suffices,
  and otherwise moves to a new array (whose capacity Go chooses; here the exact size).\<close>

definition append_slice :: "'a slice \<Rightarrow> 'a option list \<Rightarrow> 'a slice" where
  "append_slice s xs =
     (if slen s + length xs \<le> length (backing s)
      then \<lparr>backing = take (slen s) (backing s) @ xs @ drop (slen s + length xs) (backing s),
            slen = slen s + length xs\<rparr>
      else \<lparr>backing = take (slen s) (backing s) @ xs, slen = slen s + length xs\<rparr>)"

text \<open>The listener lists and the calls of \<open>Terminate\<close> so far, whose body is outside the
  available sources.\<close>

record listeners =
  networks4 :: "net_ptr slice"
  networks6 :: "net_ptr slice"
  terminated :: "net_ptr list"

text \<open>Lines 188 to 193 (and 201 to 206): the slice without the element at index \<open>n\<close>,
  built in the array of \<open>nets\<close>. The comparison \<open>n < len(nets)-1\<close> is one of Go ints.\<close>

definition removeIndex :: "'a slice \<Rightarrow> nat \<Rightarrow> 'a slice option" where
  "removeIndex nets n =
     (case sliceTo nets n of
        None \<Rightarrow> None
      | Some networksNew \<Rightarrow>
          if int n < int (slen nets) - 1
          then (case sliceFrom nets (n + 1) of
                  None \<Rightarrow> None
                | Some rest \<Rightarrow> Some (append_slice networksNew rest))
          else Some networksNew)"

text \<open>One round of the loop over \<open>networks6\<close> at index \<open>n\<close>. The \<open>range\<close> clause reads its
  slice once, so the loop runs over the indices below the length at its start and reads
  slot \<open>n\<close> of the array of that slice; \<open>removeIndex\<close> never leaves that array, since it
  only shortens. \<open>None\<close> is a run-time panic (a \<open>nil\<close> listener or a slice out of range).\<close>

definition matches :: "(net_ptr \<Rightarrow> Network) \<Rightarrow> string \<Rightarrow> net_ptr \<Rightarrow> bool" where
  "matches heap ifaceName network =
     (case net_iface (heap network) of None \<Rightarrow> False | Some name \<Rightarrow> name = ifaceName)"

definition remove6Step ::
  "(net_ptr \<Rightarrow> Network) \<Rightarrow> string \<Rightarrow> nat \<Rightarrow> listeners option \<Rightarrow> listeners option" where
  "remove6Step heap ifaceName n r =
     (case r of
        None \<Rightarrow> None
      | Some st \<Rightarrow>
          (if n < length (backing (networks6 st))
           then (case backing (networks6 st) ! n of
                   None \<Rightarrow> None
                 | Some network \<Rightarrow>
                     if matches heap ifaceName network
                     then (case removeIndex (networks6 st) n of
                             None \<Rightarrow> None
                           | Some networksNew \<Rightarrow>
                               Some (st\<lparr>terminated := terminated st @ [network],
                                        networks6 := networksNew\<rparr>))
                     else Some st)
           else None))"

definition remove4Step ::
  "(net_ptr \<Rightarrow> Network) \<Rightarrow> string \<Rightarrow> nat \<Rightarrow> listeners option \<Rightarrow> listeners option" where
  "remove4Step heap ifaceName n r =
     (case r of
        None \<Rightarrow> None
      | Some st \<Rightarrow>
          (if n < length (backing (networks4 st))
           then (case backing (networks4 st) ! n of
                   None \<Rightarrow> None
                 | Some network \<Rightarrow>
                     if matches heap ifaceName network
                     then (case removeIndex (networks4 st) n of
                             None \<Rightarrow> None
                           | Some networksNew \<Rightarrow>
                               Some (st\<lparr>terminated := terminated st @ [network],
                                        networks4 := networksNew\<rparr>))
                     else Some st)
           else None))"

definition networkChangeInterfaceRemove ::
  "(net_ptr \<Rightarrow> Network) \<Rightarrow> string \<Rightarrow> listeners \<Rightarrow> listeners option" where
  "networkChangeInterfaceRemove heap ifaceName st =
     (case fold (remove6Step heap ifaceName) [0 ..< slen (networks6 st)] (Some st) of
        None \<Rightarrow> None
      | Some st1 \<Rightarrow>
          fold (remove4Step heap ifaceName) [0 ..< slen (networks4 st1)] (Some st1))"

text \<open>Lines 159 to 166 of \<open>networkChangeMonitor\<close>: the interfaces of the previous snapshot
  that the current one lacks are removed, then the current snapshot becomes the previous
  one. A snapshot maps interface names to address lists; the previous one is walked in
  the order \<open>names\<close> of Go's map iteration.\<close>

type_synonym snapshot = "string \<rightharpoonup> string list"

definition removedStep ::
  "(net_ptr \<Rightarrow> Network) \<Rightarrow> snapshot \<Rightarrow> string \<Rightarrow> listeners option \<Rightarrow> listeners option" where
  "removedStep heap ifacesNew ifaceExist r =
     (case r of
        None \<Rightarrow> None
      | Some st \<Rightarrow>
          (case ifacesNew ifaceExist of
             None \<Rightarrow> networkChangeInterfaceRemove heap ifaceExist st
           | Some addrs \<Rightarrow> Some st))"

definition monitorRemovals ::
  "(net_ptr \<Rightarrow> Network) \<Rightarrow> string list \<Rightarrow> snapshot \<Rightarrow> snapshot \<times> listeners
     \<Rightarrow> (snapshot \<times> listeners) option" where
  "monitorRemovals heap names ifacesNew state =
     (case fold (removedStep heap ifacesNew) names (Some (snd state)) of
        None \<Rightarrow> None
      | Some st \<Rightarrow> Some (ifacesNew, st))"

text \<open>Three listeners 1, 2 and 3 on the interface eth0, a wildcard listener 4, and an
  IPv6 list built by three appends (capacity 4).\<close>

definition exNets :: "net_ptr \<Rightarrow> Network" where
  "exNets n = \<lparr>net_iface = (if n = 4 then None else Some ''eth0'')\<rparr>"

definition exListeners :: listeners where
  "exListeners = \<lparr>networks4 = mkSlice [] 0, networks6 = mkSlice [1, 2, 3] 1, terminated = []\<rparr>"

section \<open>The peer list\<close>

lemma PeerlistAdd_empty: "PeerlistAdd ser pl pk [] = ((None, False), pl)"
  by (simp add: PeerlistAdd_def)

lemma PeerlistAdd_known:
  "cs \<noteq> [] \<Longrightarrow> pl (publicKey2Compressed ser pk) = Some p
     \<Longrightarrow> PeerlistAdd ser pl pk cs = ((Some p, False), pl)"
  by (simp add: PeerlistAdd_def)

lemma PeerlistAdd_fresh:
  "cs \<noteq> [] \<Longrightarrow> pl (publicKey2Compressed ser pk) = None
     \<Longrightarrow> PeerlistAdd ser pl pk cs
         = ((Some (newPeer pk cs), True), pl(publicKey2Compressed ser pk \<mapsto> newPeer pk cs))"
  by (simp add: PeerlistAdd_def newPeer_def Let_def)

lemma PeerlistAdd_added_iff:
  "snd (fst (PeerlistAdd ser pl pk cs)) \<longleftrightarrow> cs \<noteq> [] \<and> pl (publicKey2Compressed ser pk) = None"
  by (cases "pl (publicKey2Compressed ser pk)") (simp_all add: PeerlistAdd_def Let_def)

text \<open>
  C9. A call of \<open>PeerlistAdd\<close> with no connections returns \<open>(nil, false)\<close> and leaves the
  peer list as it was; and whenever a call reports \<open>added\<close>, the peer it created and
  stored has a non-empty active connection list, namely the connections passed in.
\<close>

theorem C9_PeerlistAdd_needs_connection:
  "PeerlistAdd ser pl pk [] = ((None, False), pl) \<and>
   (PeerlistAdd ser pl pk cs = ((r, True), pl') \<longrightarrow>
      cs \<noteq> [] \<and> (\<exists>peer. r = Some peer \<and> connectionActive peer = cs
                        \<and> connectionActive peer \<noteq> []
                        \<and> pl' (publicKey2Compressed ser pk) = Some peer))"
proof (intro conjI impI)
  show "PeerlistAdd ser pl pk [] = ((None, False), pl)"
    by (rule PeerlistAdd_empty)
next
  assume a: "PeerlistAdd ser pl pk cs = ((r, True), pl')"
  then have "snd (fst (PeerlistAdd ser pl pk cs))" by simp
  then have ne: "cs \<noteq> []" and fresh: "pl (publicKey2Compressed ser pk) = None"
    by (simp_all add: PeerlistAdd_added_iff)
  from ne fresh have "PeerlistAdd ser pl pk cs
         = ((Some (newPeer pk cs), True), pl(publicKey2Compressed ser pk \<mapsto> newPeer pk cs))"
    by (rule PeerlistAdd_fresh)
  with a have "((r, True), pl')
         = ((Some (newPeer pk cs), True), pl(publicKey2Compressed ser pk \<mapsto> newPeer pk cs))"
    by (rule trans [OF sym])
  then have "r = Some (newPeer pk cs)"
    and "pl' = pl(publicKey2Compressed ser pk \<mapsto> newPeer pk cs)"
    by (simp_all only: prod.inject simp_thms)
  then show "\<exists>peer. r = Some peer \<and> connectionActive peer = cs
                \<and> connectionActive peer \<noteq> []
                \<and> pl' (publicKey2Compressed ser pk) = Some peer"
    using ne by (simp add: newPeer_def)
  show "cs \<noteq> []" by (rule ne)
qed

theorem C9_witness:
  "PeerlistAdd (\<lambda>k::nat. [of_nat k]) Map.empty 7 [] = ((None, False), Map.empty) \<and>
   PeerlistAdd (\<lambda>k::nat. [of_nat k]) Map.empty 7 [3, 4]
     = ((Some (newPeer 7 [3, 4]), True),
        [publicKey2Compressed (\<lambda>k::nat. [of_nat k]) 7 \<mapsto> newPeer 7 [3, 4]]) \<and>
   connectionActive (newPeer (7::nat) [3, 4]) = [3, 4]"
  using C9_PeerlistAdd_needs_connection
          [of "\<lambda>k::nat. [of_nat k]" Map.empty 7 "[3, 4]" "Some (newPeer 7 [3, 4])"
              "[publicKey2Compressed (\<lambda>k::nat. [of_nat k]) 7 \<mapsto> newPeer 7 [3, 4]]"]
  by (simp add: PeerlistAdd_def newPeer_def Let_def)

text \<open>
  C10. When \<open>PeerlistAdd\<close> creates a peer from the connections \<open>cs\<close> (it reports
  \<open>added\<close>), the record it returns and stores has \<open>cs\<close>, in the given order, as its
  active connections, no inactive connection, and the first connection of \<open>cs\<close> as
  \<open>connectionLatest\<close>.
\<close>

theorem C10_created_peer_fields:
  assumes "PeerlistAdd ser pl pk cs = ((r, True), pl')"
  shows "\<exists>c1 rest peer. cs = c1 # rest \<and> r = Some peer
           \<and> pl' = pl(publicKey2Compressed ser pk \<mapsto> peer)
           \<and> PublicKey peer = pk
           \<and> connectionActive peer = cs
           \<and> connectionInactive peer = []
           \<and> connectionLatest peer = Some c1"
proof -
  from assms have "snd (fst (PeerlistAdd ser pl pk cs))" by simp
  then have ne: "cs \<noteq> []" and fresh: "pl (publicKey2Compressed ser pk) = None"
    by (simp_all add: PeerlistAdd_added_iff)
  from ne obtain c1 rest where cs: "cs = c1 # rest" by (cases cs) simp_all
  from ne fresh have "PeerlistAdd ser pl pk cs
         = ((Some (newPeer pk cs), True), pl(publicKey2Compressed ser pk \<mapsto> newPeer pk cs))"
    by (rule PeerlistAdd_fresh)
  with assms have "((r, True), pl')
         = ((Some (newPeer pk cs), True), pl(publicKey2Compressed ser pk \<mapsto> newPeer pk cs))"
    by (rule trans [OF sym])
  then have "r = Some (newPeer pk cs)"
    and "pl' = pl(publicKey2Compressed ser pk \<mapsto> newPeer pk cs)"
    by (simp_all only: prod.inject simp_thms)
  with cs show ?thesis by (simp add: newPeer_def)
qed

theorem C10_witness:
  "\<exists>peer. PeerlistAdd (\<lambda>k::nat. [of_nat k]) Map.empty 7 [5, 3, 4]
            = ((Some peer, True), [publicKey2Compressed (\<lambda>k::nat. [of_nat k]) 7 \<mapsto> peer])
      \<and> connectionActive peer = [5, 3, 4]
      \<and> connectionInactive peer = []
      \<and> connectionLatest peer = Some 5"
proof -
  have run: "PeerlistAdd (\<lambda>k::nat. [of_nat k]) Map.empty 7 [5, 3, 4]
      = ((Some (newPeer 7 [5, 3, 4]), True),
         [publicKey2Compressed (\<lambda>k::nat. [of_nat k]) 7 \<mapsto> newPeer 7 [5, 3, 4]])"
    by (simp add: PeerlistAdd_def newPeer_def Let_def)
  from C10_created_peer_fields [OF run] run show ?thesis by auto
qed

lemma PeerlistAdd_calls_known:
  "pl k = Some p \<Longrightarrow> list_all (\<lambda>(pk, cs). publicKey2Compressed ser pk = k \<and> cs \<noteq> []) calls
     \<Longrightarrow> PeerlistAdd_calls ser pl calls = replicate (length calls) ((Some p, False), pl)"
proof (induction calls)
  case Nil
  then show ?case by simp
next
  case (Cons call calls)
  obtain pk cs where call: "call = (pk, cs)" by (cases call)
  from Cons.prems call have "PeerlistAdd ser pl pk cs = ((Some p, False), pl)"
    by (simp add: PeerlistAdd_known)
  with Cons call show ?case by simp
qed

lemma keyedD: "keyed ser pl \<Longrightarrow> pl k' = Some q \<Longrightarrow> publicKey2Compressed ser (PublicKey q) = k'"
proof -
  assume "keyed ser pl" and q: "pl k' = Some q"
  from this(1) have "case pl k' of None \<Rightarrow> True | Some q \<Rightarrow> publicKey2Compressed ser (PublicKey q) = k'"
    unfolding keyed_def by (rule spec)
  with q show ?thesis by simp
qed

lemma recordsFor_fresh:
  assumes "keyed ser pl" and "pl k = None" and "publicKey2Compressed ser (PublicKey p) = k"
  shows "recordsFor ser (pl(k \<mapsto> p)) k = {k}"
proof (rule set_eqI)
  fix k'
  show "k' \<in> recordsFor ser (pl(k \<mapsto> p)) k \<longleftrightarrow> k' \<in> {k}"
  proof (cases "k' = k")
    case True
    with assms(3) show ?thesis by (simp add: recordsFor_def)
  next
    case False
    show ?thesis
    proof (cases "pl k'")
      case None
      with False show ?thesis by (simp add: recordsFor_def)
    next
      case (Some q)
      with assms(1) have "publicKey2Compressed ser (PublicKey q) = k'" by (rule keyedD)
      with False Some show ?thesis by (simp add: recordsFor_def)
    qed
  qed
qed

text \<open>
  C3. Take a peer list that holds every record under its own key and has no record for
  the key \<open>k\<close>, and a non-empty run of \<open>PeerlistAdd\<close> calls whose public keys all compress
  to \<open>k\<close> and whose connection lists are all non-empty. Then the first call creates the
  peer \<open>p\<close> and reports \<open>added\<close>; every later call returns that same \<open>p\<close> with
  \<open>added = false\<close> and leaves the peer list as the first call left it; and in the peer
  list after each call the records of identity \<open>k\<close> are exactly the one under \<open>k\<close>.
\<close>

theorem C3_PeerlistAdd_unique:
  assumes "keyed ser pl" and "pl k = None"
    and "list_all (\<lambda>(pk, cs). publicKey2Compressed ser pk = k \<and> cs \<noteq> []) ((pk1, cs1) # calls)"
  shows "PeerlistAdd_calls ser pl ((pk1, cs1) # calls)
           = ((Some (newPeer pk1 cs1), True), pl(k \<mapsto> newPeer pk1 cs1))
             # replicate (length calls) ((Some (newPeer pk1 cs1), False), pl(k \<mapsto> newPeer pk1 cs1))
         \<and> recordsFor ser (pl(k \<mapsto> newPeer pk1 cs1)) k = {k}"
proof -
  from assms(3) have k: "publicKey2Compressed ser pk1 = k" and ne: "cs1 \<noteq> []"
    and rest: "list_all (\<lambda>(pk, cs). publicKey2Compressed ser pk = k \<and> cs \<noteq> []) calls"
    by simp_all
  from ne assms(2) k have first: "PeerlistAdd ser pl pk1 cs1
       = ((Some (newPeer pk1 cs1), True), pl(k \<mapsto> newPeer pk1 cs1))"
    by (simp add: PeerlistAdd_fresh)
  have "(pl(k \<mapsto> newPeer pk1 cs1)) k = Some (newPeer pk1 cs1)" by simp
  from this rest
  have later: "PeerlistAdd_calls ser (pl(k \<mapsto> newPeer pk1 cs1)) calls
       = replicate (length calls) ((Some (newPeer pk1 cs1), False), pl(k \<mapsto> newPeer pk1 cs1))"
    by (rule PeerlistAdd_calls_known)
  have "publicKey2Compressed ser (PublicKey (newPeer pk1 cs1)) = k"
    using k by (simp add: newPeer_def)
  with assms(1,2) have "recordsFor ser (pl(k \<mapsto> newPeer pk1 cs1)) k = {k}"
    by (rule recordsFor_fresh)
  with first later show ?thesis by simp
qed

theorem C3_witness:
  "keyed (\<lambda>n::nat. [of_nat (n mod 2)]) Map.empty \<and>
   PeerlistAdd_calls (\<lambda>n::nat. [of_nat (n mod 2)]) Map.empty [(7, [1]), (9, [2, 3]), (7, [1])]
     = [((Some (newPeer 7 [1]), True),
         [publicKey2Compressed (\<lambda>n::nat. [of_nat (n mod 2)]) 7 \<mapsto> newPeer 7 [1]]),
        ((Some (newPeer 7 [1]), False),
         [publicKey2Compressed (\<lambda>n::nat. [of_nat (n mod 2)]) 7 \<mapsto> newPeer 7 [1]]),
        ((Some (newPeer 7 [1]), False),
         [publicKey2Compressed (\<lambda>n::nat. [of_nat (n mod 2)]) 7 \<mapsto> newPeer 7 [1]])] \<and>
   recordsFor (\<lambda>n::nat. [of_nat (n mod 2)])
       [publicKey2Compressed (\<lambda>n::nat. [of_nat (n mod 2)]) 7 \<mapsto> newPeer 7 [1]]
       (publicKey2Compressed (\<lambda>n::nat. [of_nat (n mod 2)]) 7)
     = {publicKey2Compressed (\<lambda>n::nat. [of_nat (n mod 2)]) 7}"
proof -
  let ?ser = "\<lambda>n::nat. [of_nat (n mod 2) :: byte]"
  have a: "keyed ?ser Map.empty" by (simp add: keyed_def)
  have b: "(Map.empty :: nat peerList) (publicKey2Compressed ?ser 7) = None" by simp
  have same: "publicKey2Compressed ?ser 9 = publicKey2Compressed ?ser 7"
    by (simp add: publicKey2Compressed_def)
  have c: "list_all (\<lambda>(pk, cs). publicKey2Compressed ?ser pk = publicKey2Compressed ?ser 7 \<and> cs \<noteq> [])
             [(7, [1]), (9, [2, 3]), (7, [1])]"
    using same by simp
  from C3_PeerlistAdd_unique [OF a b c] a show ?thesis
    by (simp add: numeral_2_eq_2)
qed

section \<open>The announcement handler\<close>

lemma cmdAnouncement_unknown:
  "peerList st (publicKey2Compressed ser (SenderPublicKey msg)) = None
     \<Longrightarrow> cmdAnouncement ser None msg st
         = \<lparr>peerList = (peerList st)(publicKey2Compressed ser (SenderPublicKey msg)
                              \<mapsto> newPeer (SenderPublicKey msg) [connection msg]),
            sent = sent st @ [(newPeer (SenderPublicKey msg) [connection msg],
                               mkPacket CommandResponse)]\<rparr>"
  by (simp add: cmdAnouncement_def PeerlistAdd_fresh send_def)

text \<open>
  C4. On the empty peer list, \<open>cmdAnouncement\<close> with a \<open>nil\<close> peer and a packet of sender key
  \<open>K\<close> received on connection \<open>C\<close> leaves exactly one record, stored under the
  compressed key of \<open>K\<close>, whose active connections are \<open>[C]\<close>, and calls \<open>send\<close>
  exactly once, on that peer, with a Response packet. Called with a known peer, it calls
  \<open>send\<close> once with a Response packet on that peer and leaves the peer list untouched.
\<close>

theorem C4_announcement_handshake:
  "cmdAnouncement ser None \<lparr>Raw = raw, SenderPublicKey = K, connection = C\<rparr>
       \<lparr>peerList = initPeerList, sent = []\<rparr>
     = \<lparr>peerList = [publicKey2Compressed ser K \<mapsto> newPeer K [C]],
        sent = [(newPeer K [C], mkPacket CommandResponse)]\<rparr>
   \<and> dom [publicKey2Compressed ser K \<mapsto> newPeer K [C]] = {publicKey2Compressed ser K}
   \<and> PublicKey (newPeer K [C]) = K
   \<and> connectionActive (newPeer K [C]) = [C]
   \<and> Command (mkPacket CommandResponse) = 1
   \<and> cmdAnouncement ser (Some p) msg st
     = \<lparr>peerList = peerList st, sent = sent st @ [(p, mkPacket CommandResponse)]\<rparr>"
proof -
  have "cmdAnouncement ser None \<lparr>Raw = raw, SenderPublicKey = K, connection = C\<rparr>
       \<lparr>peerList = initPeerList, sent = []\<rparr>
     = \<lparr>peerList = [publicKey2Compressed ser K \<mapsto> newPeer K [C]],
        sent = [(newPeer K [C], mkPacket CommandResponse)]\<rparr>"
    by (simp add: cmdAnouncement_unknown initPeerList_def)
  moreover have "cmdAnouncement ser (Some p) msg st
     = \<lparr>peerList = peerList st, sent = sent st @ [(p, mkPacket CommandResponse)]\<rparr>"
    by (simp add: cmdAnouncement_def send_def)
  ultimately show ?thesis
    by (simp add: newPeer_def mkPacket_def CommandResponse_def)
qed

section \<open>Send errors and pings\<close>

lemma HasPrefix_iff: "HasPrefix s p \<longleftrightarrow> (\<exists>post. s = p @ post)"
  by (induction s p rule: HasPrefix.induct) auto

lemma Contains_iff: "Contains s substr \<longleftrightarrow> (\<exists>pre post. s = pre @ substr @ post)"
proof (induction s)
  case Nil
  show ?case by (cases substr) simp_all
next
  case (Cons c s)
  show ?case
  proof
    assume "Contains (c # s) substr"
    then consider "HasPrefix (c # s) substr" | "Contains s substr" by auto
    then show "\<exists>pre post. c # s = pre @ substr @ post"
    proof cases
      case 1
      then obtain post where "c # s = substr @ post" by (auto simp: HasPrefix_iff)
      then have "c # s = [] @ substr @ post" by simp
      then show ?thesis by blast
    next
      case 2
      with Cons obtain pre post where "s = pre @ substr @ post" by auto
      then have "c # s = (c # pre) @ substr @ post" by simp
      then show ?thesis by blast
    qed
  next
    assume "\<exists>pre post. c # s = pre @ substr @ post"
    then obtain pre post where eq: "c # s = pre @ substr @ post" by auto
    show "Contains (c # s) substr"
    proof (cases pre)
      case Nil
      with eq have "HasPrefix (c # s) substr" by (auto simp: HasPrefix_iff)
      then show ?thesis by simp
    next
      case (Cons a pre')
      with eq have "s = pre' @ substr @ post" by simp
      with Cons.IH have "Contains s substr" by blast
      then show ?thesis by simp
    qed
  qed
qed

lemma IsNetworkErrorFatal_iff:
  "IsNetworkErrorFatal err \<longleftrightarrow> (\<exists>pre post. err = Some (pre @ addressNotValid @ post))"
  by (cases err) (auto simp: IsNetworkErrorFatal_def Contains_iff)

section \<open>Sending a ping\<close>

lemma sendPing_eq:
  "sendPing sendErr now c s =
     (if (Status (ps_conns s c) = ConnectionActive \<or> Status (ps_conns s c) = ConnectionRedundant)
         \<and> IsNetworkErrorFatal (sendErr (mkPacket CommandPing) c)
      then invalidateActiveConnection now c (pinged now c s)
      else pinged now c s)"
  by (simp add: sendPing_def sendConnection_def stampPingOut_def pinged_def)

lemma pinged_simps [simp]:
  "ps_peer (pinged now c s) = ps_peer s"
  "ps_conns (pinged now c s) = (ps_conns s)(c := (ps_conns s c)\<lparr>LastPingOut := now\<rparr>)"
  "ps_wire (pinged now c s) = ps_wire s @ [(mkPacket CommandPing, c)]"
  by (simp_all add: pinged_def stampPingOut_def)

lemma invalidate_simps [simp]:
  "connectionActive (ps_peer (invalidateActiveConnection now c s)) = removeAll c (connectionActive (ps_peer s))"
  "connectionInactive (ps_peer (invalidateActiveConnection now c s)) = connectionInactive (ps_peer s) @ [c]"
  "ps_conns (invalidateActiveConnection now c s)
     = (ps_conns s)(c := (ps_conns s c)\<lparr>Status := ConnectionInactive,
                                           Expires := time_Add now (connectionRemove * Second)\<rparr>)"
  "ps_wire (invalidateActiveConnection now c s) = ps_wire s"
  by (simp_all add: invalidateActiveConnection_def)

text \<open>
  C1, as stated, fails: an error whose text contains the pattern is reported fatal, and an
  error without it is not; \<open>sendPing\<close> on an active connection invalidates the connection
  for the first and keeps it active for the second.
\<close>

theorem C1_counterexample:
  "IsNetworkErrorFatal (Some ''wsasendto: The requested address is not valid in its context.'')
   \<and> \<not> IsNetworkErrorFatal (Some ''sendto: network is unreachable'')
   \<and> connectionInactive (ps_peer (sendPing
         (\<lambda>pkt c. Some ''wsasendto: The requested address is not valid in its context.'') 100 1
         \<lparr>ps_peer = exPeer 2 [1] [], ps_conns = (\<lambda>c. exConn ConnectionActive 90 80 0), ps_wire = []\<rparr>)) = [1]
   \<and> connectionActive (ps_peer (sendPing
         (\<lambda>pkt c. Some ''sendto: network is unreachable'') 100 1
         \<lparr>ps_peer = exPeer 2 [1] [], ps_conns = (\<lambda>c. exConn ConnectionActive 90 80 0), ps_wire = []\<rparr>)) = [1]"
  by (simp add: sendPing_eq IsNetworkErrorFatal_def addressNotValid_def exPeer_def exConn_def)

text \<open>
  C1, amended. \<open>IsNetworkErrorFatal\<close> reports an error fatal exactly when it is non-nil and
  its text contains "requested address is not valid in its context"; every other error,
  and \<open>nil\<close>, is not fatal. So \<open>sendPing\<close> invalidates the connection exactly when its
  status is Active or Redundant and the send error contains the pattern, and otherwise
  only records the ping.
\<close>

theorem C1_fatal_is_the_pattern:
  "(IsNetworkErrorFatal err \<longleftrightarrow> (\<exists>pre post. err = Some (pre @ addressNotValid @ post)))
   \<and> addressNotValid = ''requested address is not valid in its context''
   \<and> sendPing sendErr now c s =
     (if (Status (ps_conns s c) = ConnectionActive \<or> Status (ps_conns s c) = ConnectionRedundant)
         \<and> (\<exists>pre post. sendErr (mkPacket CommandPing) c = Some (pre @ addressNotValid @ post))
      then invalidateActiveConnection now c (pinged now c s)
      else pinged now c s)"
  using IsNetworkErrorFatal_iff [of err] IsNetworkErrorFatal_iff [of "sendErr (mkPacket CommandPing) c"]
  by (simp add: sendPing_eq addressNotValid_def)

text \<open>
  C7. After \<open>sendPing\<close> the connection's \<open>LastPingOut\<close> is \<open>now\<close>, whatever the send
  returned, and the ping was handed to \<open>sendConnection\<close> once. If the connection's status
  is Active or Redundant and \<open>IsNetworkErrorFatal\<close> holds of the send error, \<open>sendPing\<close>
  also invalidates the connection: it leaves the active list, is on the inactive list
  and has status Inactive. No timestamp is consulted.
\<close>

theorem C7_sendPing:
  "LastPingOut (ps_conns (sendPing sendErr now c s) c) = now
   \<and> ps_wire (sendPing sendErr now c s) = ps_wire s @ [(mkPacket CommandPing, c)]
   \<and> ((Status (ps_conns s c) = ConnectionActive \<or> Status (ps_conns s c) = ConnectionRedundant)
        \<and> IsNetworkErrorFatal (sendErr (mkPacket CommandPing) c)
      \<longrightarrow> sendPing sendErr now c s = invalidateActiveConnection now c (pinged now c s)
        \<and> c \<notin> set (connectionActive (ps_peer (sendPing sendErr now c s)))
        \<and> c \<in> set (connectionInactive (ps_peer (sendPing sendErr now c s)))
        \<and> Status (ps_conns (sendPing sendErr now c s) c) = ConnectionInactive)"
proof (cases "(Status (ps_conns s c) = ConnectionActive \<or> Status (ps_conns s c) = ConnectionRedundant)
        \<and> IsNetworkErrorFatal (sendErr (mkPacket CommandPing) c)")
  case True
  then have "sendPing sendErr now c s = invalidateActiveConnection now c (pinged now c s)"
    by (simp add: sendPing_eq)
  then show ?thesis by simp
next
  case False
  then have "sendPing sendErr now c s = pinged now c s"
    unfolding sendPing_eq by (rule if_not_P)
  then have "LastPingOut (ps_conns (sendPing sendErr now c s) c) = now"
    and "ps_wire (sendPing sendErr now c s) = ps_wire s @ [(mkPacket CommandPing, c)]"
    by simp_all
  with False show ?thesis by blast
qed

theorem C7_witness:
  "IsNetworkErrorFatal (Some ''wsasendto: The requested address is not valid in its context.'')
   \<and> LastPingOut (ps_conns (sendPing
         (\<lambda>pkt c. Some ''wsasendto: The requested address is not valid in its context.'') 100 1
         \<lparr>ps_peer = exPeer 2 [1, 2] [], ps_conns = (\<lambda>c. exConn ConnectionRedundant 99 98 0), ps_wire = []\<rparr>) 1) = 100
   \<and> connectionActive (ps_peer (sendPing
         (\<lambda>pkt c. Some ''wsasendto: The requested address is not valid in its context.'') 100 1
         \<lparr>ps_peer = exPeer 2 [1, 2] [], ps_conns = (\<lambda>c. exConn ConnectionRedundant 99 98 0), ps_wire = []\<rparr>)) = [2]
   \<and> connectionInactive (ps_peer (sendPing
         (\<lambda>pkt c. Some ''wsasendto: The requested address is not valid in its context.'') 100 1
         \<lparr>ps_peer = exPeer 2 [1, 2] [], ps_conns = (\<lambda>c. exConn ConnectionRedundant 99 98 0), ps_wire = []\<rparr>)) = [1]
   \<and> LastPingOut (ps_conns (sendPing (\<lambda>pkt c. None) 100 1
         \<lparr>ps_peer = exPeer 2 [1, 2] [], ps_conns = (\<lambda>c. exConn ConnectionRedundant 99 98 0), ps_wire = []\<rparr>) 1) = 100"
proof -
  have f: "IsNetworkErrorFatal (Some ''wsasendto: The requested address is not valid in its context.'')"
    by (simp add: IsNetworkErrorFatal_def addressNotValid_def)
  from C7_sendPing [of "\<lambda>pkt c. Some ''wsasendto: The requested address is not valid in its context.''" 100 1
         "\<lparr>ps_peer = exPeer 2 [1, 2] [], ps_conns = (\<lambda>c. exConn ConnectionRedundant 99 98 0), ps_wire = []\<rparr>"]
       C7_sendPing [of "\<lambda>pkt c. None" 100 1
         "\<lparr>ps_peer = exPeer 2 [1, 2] [], ps_conns = (\<lambda>c. exConn ConnectionRedundant 99 98 0), ps_wire = []\<rparr>"]
       f
  show ?thesis
    by (simp add: exPeer_def exConn_def)
qed

section \<open>The keep-alive loop over one peer\<close>

lemmas pass_eval =
  autoPingAll_tick_def autoPingOne_def autoPingPeer_def activePass_def inactivePass_def
  GetConnections_def activeStep_def inactiveStep_def sendPing_eq
  invalidateActiveConnection_def removeInactiveConnection_def pinged_def stampPingOut_def
  thresholdInvalidate1_def thresholdInvalidate2_def thresholdPingOut1_def
  thresholdPingOut2_def connectionInvalidate_def pingTime_def connectionRemove_def
  Before_def time_Add_def Second_def IsNetworkErrorFatal_def Let_def

lemmas example_defs = exNow_def exWorld_def exPeer_def exConn_def

lemma exKey_neq [simp]: "exKey 2 \<noteq> exKey 3" "exKey 3 \<noteq> exKey 2"
  by (simp_all add: exKey_def exSer_def publicKey2Compressed_def PubKeyBytesLenCompressed_def)


lemma removeInactive_simps [simp]:
  "connectionActive (ps_peer (removeInactiveConnection c s)) = connectionActive (ps_peer s)"
  "connectionInactive (ps_peer (removeInactiveConnection c s)) = removeAll c (connectionInactive (ps_peer s))"
  "ps_conns (removeInactiveConnection c s) = ps_conns s"
  "ps_wire (removeInactiveConnection c s) = ps_wire s"
  by (simp_all add: removeInactiveConnection_def)

lemma pingsOn_snoc [simp]:
  "pingsOn (wire @ [(mkPacket CommandPing, x)]) c = pingsOn wire c + (if x = c then 1 else 0)"
  by (simp add: pingsOn_def)

text \<open>What a state shows of one connection: its cell, whether it is on the active and on
  the inactive list, and how many pings went out on it.\<close>

lemma sendPing_frame:
  assumes "x \<noteq> c"
  shows "ps_conns (sendPing E now x s) c = ps_conns s c"
    and "c \<in> set (connectionActive (ps_peer (sendPing E now x s))) \<longleftrightarrow> c \<in> set (connectionActive (ps_peer s))"
    and "c \<in> set (connectionInactive (ps_peer (sendPing E now x s))) \<longleftrightarrow> c \<in> set (connectionInactive (ps_peer s))"
    and "pingsOn (ps_wire (sendPing E now x s)) c = pingsOn (ps_wire s) c"
  using assms by (simp_all add: sendPing_eq)

lemma activeStep_frame:
  assumes "x \<noteq> c"
  shows "ps_conns (activeStep E now x s) c = ps_conns s c"
    and "c \<in> set (connectionActive (ps_peer (activeStep E now x s))) \<longleftrightarrow> c \<in> set (connectionActive (ps_peer s))"
    and "c \<in> set (connectionInactive (ps_peer (activeStep E now x s))) \<longleftrightarrow> c \<in> set (connectionInactive (ps_peer s))"
    and "pingsOn (ps_wire (activeStep E now x s)) c = pingsOn (ps_wire s) c"
  using assms by (simp_all add: activeStep_def Let_def sendPing_frame)

lemma inactiveStep_frame:
  assumes "x \<noteq> c"
  shows "ps_conns (inactiveStep E now x s) c = ps_conns s c"
    and "c \<in> set (connectionActive (ps_peer (inactiveStep E now x s))) \<longleftrightarrow> c \<in> set (connectionActive (ps_peer s))"
    and "c \<in> set (connectionInactive (ps_peer (inactiveStep E now x s))) \<longleftrightarrow> c \<in> set (connectionInactive (ps_peer s))"
    and "pingsOn (ps_wire (inactiveStep E now x s)) c = pingsOn (ps_wire s) c"
  using assms by (simp_all add: inactiveStep_def sendPing_frame)

lemma fold_activeStep_frame:
  assumes "c \<notin> set xs"
  shows "ps_conns (fold (activeStep E now) xs s) c = ps_conns s c
       \<and> (c \<in> set (connectionActive (ps_peer (fold (activeStep E now) xs s))) \<longleftrightarrow> c \<in> set (connectionActive (ps_peer s)))
       \<and> (c \<in> set (connectionInactive (ps_peer (fold (activeStep E now) xs s))) \<longleftrightarrow> c \<in> set (connectionInactive (ps_peer s)))
       \<and> pingsOn (ps_wire (fold (activeStep E now) xs s)) c = pingsOn (ps_wire s) c"
  using assms by (induction xs arbitrary: s) (simp_all add: activeStep_frame)

lemma fold_inactiveStep_frame:
  assumes "c \<notin> set xs"
  shows "ps_conns (fold (inactiveStep E now) xs s) c = ps_conns s c
       \<and> (c \<in> set (connectionActive (ps_peer (fold (inactiveStep E now) xs s))) \<longleftrightarrow> c \<in> set (connectionActive (ps_peer s)))
       \<and> (c \<in> set (connectionInactive (ps_peer (fold (inactiveStep E now) xs s))) \<longleftrightarrow> c \<in> set (connectionInactive (ps_peer s)))
       \<and> pingsOn (ps_wire (fold (inactiveStep E now) xs s)) c = pingsOn (ps_wire s) c"
  using assms by (induction xs arbitrary: s) (simp_all add: inactiveStep_frame)

lemma activeStep_stale:
  "staleActive now c s \<Longrightarrow> activeStep E now c s = invalidateActiveConnection now c s"
  by (simp add: staleActive_def activeStep_def)

lemma fold_activeStep_stale:
  assumes "staleActive now c s" and "c \<in> set xs \<or> invalidated now c s"
  shows "staleActive now c (fold (activeStep E now) xs s)
       \<and> invalidated now c (fold (activeStep E now) xs s)
       \<and> LastPingOut (ps_conns (fold (activeStep E now) xs s) c) = LastPingOut (ps_conns s c)
       \<and> pingsOn (ps_wire (fold (activeStep E now) xs s)) c = pingsOn (ps_wire s) c"
  using assms
proof (induction xs arbitrary: s)
  case Nil
  then show ?case by simp
next
  case (Cons x xs)
  let ?s1 = "activeStep E now x s"
  have "staleActive now c ?s1 \<and> (c \<in> set xs \<or> invalidated now c ?s1)
        \<and> LastPingOut (ps_conns ?s1 c) = LastPingOut (ps_conns s c)
        \<and> pingsOn (ps_wire ?s1) c = pingsOn (ps_wire s) c"
  proof (cases "x = c")
    case True
    with Cons.prems(1) have "?s1 = invalidateActiveConnection now c s"
      by (simp add: activeStep_stale)
    with Cons.prems(1) show ?thesis
      by (simp add: staleActive_def invalidated_def)
  next
    case False
    with Cons.prems show ?thesis
      by (auto simp add: staleActive_def invalidated_def activeStep_frame)
  qed
  with Cons.IH [of ?s1] show ?case by simp
qed

lemma time_Add_not_Before: "\<not> Before now (thresholdPingOut1 now)"
  by (simp add: Before_def thresholdPingOut1_def time_Add_def pingTime_def Second_def)

lemma inactiveStep_parked:
  assumes "parked now c s"
  shows "inactiveStep E now c s
           = (if Before (LastPingOut (ps_conns s c)) (thresholdPingOut1 now)
              then pinged now c s else s)"
  using assms by (simp add: parked_def inactiveStep_def sendPing_eq)

lemma fold_inactiveStep_parked:
  assumes "parked now c s"
  shows "parked now c (fold (inactiveStep E now) xs s)
       \<and> (c \<in> set (connectionActive (ps_peer (fold (inactiveStep E now) xs s)))
            \<longleftrightarrow> c \<in> set (connectionActive (ps_peer s)))
       \<and> pingsOn (ps_wire (fold (inactiveStep E now) xs s)) c
           = pingsOn (ps_wire s) c
             + (if c \<in> set xs \<and> Before (LastPingOut (ps_conns s c)) (thresholdPingOut1 now)
                then 1 else 0)"
  using assms
proof (induction xs arbitrary: s)
  case Nil
  then show ?case by simp
next
  case (Cons x xs)
  let ?s1 = "inactiveStep E now x s"
  show ?case
  proof (cases "x = c")
    case True
    show ?thesis
    proof (cases "Before (LastPingOut (ps_conns s c)) (thresholdPingOut1 now)")
      case True
      with \<open>x = c\<close> Cons.prems have s1: "?s1 = pinged now c s"
        by (simp add: inactiveStep_parked)
      with Cons.prems have p1: "parked now c ?s1" by (simp add: parked_def)
      from s1 have "\<not> Before (LastPingOut (ps_conns ?s1 c)) (thresholdPingOut1 now)"
        by (simp add: time_Add_not_Before)
      with Cons.IH [OF p1] s1 True \<open>x = c\<close> show ?thesis by simp
    next
      case False
      with \<open>x = c\<close> Cons.prems have s1: "?s1 = s"
        by (simp add: inactiveStep_parked)
      with Cons.IH [of s] Cons.prems False \<open>x = c\<close> show ?thesis by simp
    qed
  next
    case False
    with Cons.prems have p1: "parked now c ?s1"
      by (simp add: parked_def inactiveStep_frame)
    from Cons.IH [OF p1] False show ?thesis
      by (simp add: inactiveStep_frame)
  qed
qed

lemma autoPingPeer_stale:
  assumes "c \<in> set (connectionActive (ps_peer s))" and "staleActive now c s"
  shows "c \<notin> set (connectionActive (ps_peer (autoPingPeer E now s)))
       \<and> c \<in> set (connectionInactive (ps_peer (autoPingPeer E now s)))
       \<and> Status (ps_conns (autoPingPeer E now s) c) = ConnectionInactive
       \<and> pingsOn (ps_wire (activePass E now s)) c = pingsOn (ps_wire s) c
       \<and> pingsOn (ps_wire (autoPingPeer E now s)) c
           = pingsOn (ps_wire s) c
             + (if Before (LastPingOut (ps_conns s c)) (thresholdPingOut1 now) then 1 else 0)"
proof -
  let ?s1 = "activePass E now s"
  from assms have a: "staleActive now c ?s1 \<and> invalidated now c ?s1
       \<and> LastPingOut (ps_conns ?s1 c) = LastPingOut (ps_conns s c)
       \<and> pingsOn (ps_wire ?s1) c = pingsOn (ps_wire s) c"
    unfolding activePass_def GetConnections_def
    by (simp add: fold_activeStep_stale)
  then have inv: "invalidated now c ?s1" by simp
  then have p1: "parked now c ?s1"
    by (simp add: invalidated_def parked_def Before_def time_Add_def connectionRemove_def Second_def)
  from inv have mem: "c \<in> set (connectionInactive (ps_peer ?s1))"
    and nact: "c \<notin> set (connectionActive (ps_peer ?s1))"
    by (simp_all add: invalidated_def)
  have s': "autoPingPeer E now s = fold (inactiveStep E now) (connectionInactive (ps_peer ?s1)) ?s1"
    by (simp add: autoPingPeer_def inactivePass_def GetConnections_def)
  from fold_inactiveStep_parked [OF p1, of E "connectionInactive (ps_peer ?s1)"] mem nact a
  show ?thesis
    unfolding s' by (simp add: parked_def)
qed

lemma autoPingPeer_frame:
  assumes "c \<notin> set (connectionActive (ps_peer s))" and "c \<notin> set (connectionInactive (ps_peer s))"
  shows "ps_conns (autoPingPeer E now s) c = ps_conns s c
       \<and> pingsOn (ps_wire (autoPingPeer E now s)) c = pingsOn (ps_wire s) c"
proof -
  let ?s1 = "activePass E now s"
  from assms have a: "ps_conns ?s1 c = ps_conns s c
       \<and> c \<notin> set (connectionInactive (ps_peer ?s1))
       \<and> pingsOn (ps_wire ?s1) c = pingsOn (ps_wire s) c"
    unfolding activePass_def GetConnections_def
    by (simp add: fold_activeStep_frame)
  then have "c \<notin> set (connectionInactive (ps_peer ?s1))" by simp
  from fold_inactiveStep_frame [OF this, of E now ?s1] a
  show ?thesis
    by (simp add: autoPingPeer_def inactivePass_def GetConnections_def)
qed

section \<open>One pass of autoPingAll over the peer list\<close>

lemma autoPingOne_other: "k \<noteq> k' \<Longrightarrow> cs_peers (autoPingOne E now k' w) k = cs_peers w k"
  by (simp add: autoPingOne_def Let_def split: option.splits)

lemma autoPingOne_known:
  "cs_peers w k = Some p \<Longrightarrow>
     cs_peers (autoPingOne E now k w) k = Some (ps_peer (autoPingPeer E now (peerState w p)))
     \<and> cs_conns (autoPingOne E now k w) = ps_conns (autoPingPeer E now (peerState w p))
     \<and> cs_wire (autoPingOne E now k w) = ps_wire (autoPingPeer E now (peerState w p))"
  by (simp add: autoPingOne_def Let_def peerState_def)

lemma autoPingOne_frame:
  assumes "foreign w [k'] c"
  shows "cs_conns (autoPingOne E now k' w) c = cs_conns w c
       \<and> pingsOn (cs_wire (autoPingOne E now k' w)) c = pingsOn (cs_wire w) c"
proof (cases "cs_peers w k'")
  case None
  then show ?thesis by (simp add: autoPingOne_def)
next
  case (Some q)
  with assms have "c \<notin> set (connectionActive (ps_peer (peerState w q)))"
    and "c \<notin> set (connectionInactive (ps_peer (peerState w q)))"
    by (simp_all add: foreign_def peerState_def)
  from autoPingPeer_frame [OF this, of E now] autoPingOne_known [OF Some, of E now]
  show ?thesis by (simp add: peerState_def)
qed

lemma foreign_step:
  assumes "foreign w ks c" and "k' \<notin> set ks"
  shows "foreign (autoPingOne E now k' w) ks c"
proof -
  have "\<And>k. k \<in> set ks \<Longrightarrow> cs_peers (autoPingOne E now k' w) k = cs_peers w k"
  proof -
    fix k assume "k \<in> set ks"
    with assms(2) have "k \<noteq> k'" by blast
    then show "cs_peers (autoPingOne E now k' w) k = cs_peers w k"
      by (rule autoPingOne_other)
  qed
  with assms(1) show ?thesis
    unfolding foreign_def list_all_iff by simp
qed

lemma fold_autoPingOne_frame:
  assumes "distinct ks" and "foreign w ks c"
  shows "cs_conns (fold (autoPingOne E now) ks w) c = cs_conns w c
       \<and> pingsOn (cs_wire (fold (autoPingOne E now) ks w)) c = pingsOn (cs_wire w) c"
  using assms
proof (induction ks arbitrary: w)
  case Nil
  then show ?case by simp
next
  case (Cons k' ks)
  from Cons.prems have f1: "foreign w [k'] c" and f2: "foreign w ks c"
    by (simp_all add: foreign_def)
  from Cons.prems f2 have "foreign (autoPingOne E now k' w) ks c"
    by (simp add: foreign_step)
  with Cons.IH [of "autoPingOne E now k' w"] Cons.prems autoPingOne_frame [OF f1, of E now]
  show ?case by simp
qed

lemma fold_autoPingOne_other:
  "k \<notin> set ks \<Longrightarrow> cs_peers (fold (autoPingOne E now) ks w) k = cs_peers w k"
  by (induction ks arbitrary: w) (simp_all add: autoPingOne_other)

lemma foreign_append: "foreign w (ks @ ks') c \<longleftrightarrow> foreign w ks c \<and> foreign w ks' c"
  by (simp add: foreign_def)

lemma foreign_cong:
  assumes "foreign w ks c" and "\<And>k. k \<in> set ks \<Longrightarrow> cs_peers w' k = cs_peers w k"
  shows "foreign w' ks c"
  using assms unfolding foreign_def list_all_iff by simp

lemma tick_at_peer:
  assumes "distinct order" and "k \<in> set order" and "cs_peers w k = Some p"
  obtains w1 where "cs_peers w1 k = Some p"
    and "\<And>c. foreign w (removeAll k order) c \<Longrightarrow>
           cs_conns w1 c = cs_conns w c \<and> pingsOn (cs_wire w1) c = pingsOn (cs_wire w) c"
    and "cs_peers (autoPingAll_tick E now order w) k
           = Some (ps_peer (autoPingPeer E now (peerState w1 p)))"
    and "\<And>c. foreign w (removeAll k order) c \<Longrightarrow>
           cs_conns (autoPingAll_tick E now order w) c
             = ps_conns (autoPingPeer E now (peerState w1 p)) c
           \<and> pingsOn (cs_wire (autoPingAll_tick E now order w)) c
             = pingsOn (ps_wire (autoPingPeer E now (peerState w1 p))) c"
proof -
  from assms(2) obtain pre post where ord: "order = pre @ k # post"
    by (auto dest: split_list)
  with assms(1) have npre: "k \<notin> set pre" and npost: "k \<notin> set post"
    and dpre: "distinct pre" and dpost: "distinct post" and disj: "set pre \<inter> set post = {}"
    by auto
  from npre npost ord have rem: "removeAll k order = pre @ post" by simp
  let ?w1 = "fold (autoPingOne E now) pre w"
  let ?w2 = "autoPingOne E now k ?w1"
  let ?s' = "autoPingPeer E now (peerState ?w1 p)"
  have tick: "autoPingAll_tick E now order w = fold (autoPingOne E now) post ?w2"
    by (simp add: autoPingAll_tick_def ord)
  have p1: "cs_peers ?w1 k = Some p"
    using npre assms(3) by (simp add: fold_autoPingOne_other)
  have c1: "cs_conns ?w1 c = cs_conns w c \<and> pingsOn (cs_wire ?w1) c = pingsOn (cs_wire w) c"
    if "foreign w (removeAll k order) c" for c
    using that dpre by (simp add: rem foreign_append fold_autoPingOne_frame)
  have w2: "cs_peers ?w2 k = Some (ps_peer ?s') \<and> cs_conns ?w2 = ps_conns ?s'
            \<and> cs_wire ?w2 = ps_wire ?s'"
    using p1 by (rule autoPingOne_known)
  have p3: "cs_peers (autoPingAll_tick E now order w) k = Some (ps_peer ?s')"
    using npost w2 by (simp add: tick fold_autoPingOne_other)
  have c3: "cs_conns (autoPingAll_tick E now order w) c = ps_conns ?s' c
            \<and> pingsOn (cs_wire (autoPingAll_tick E now order w)) c = pingsOn (ps_wire ?s') c"
    if f: "foreign w (removeAll k order) c" for c
  proof -
    from f have fpost: "foreign w post c" by (simp add: rem foreign_append)
    have "cs_peers ?w2 k' = cs_peers w k'" if "k' \<in> set post" for k'
    proof -
      from that npost have "k' \<noteq> k" by blast
      moreover from that disj have "k' \<notin> set pre" by blast
      ultimately show ?thesis
        by (simp add: autoPingOne_other fold_autoPingOne_other)
    qed
    with fpost have "foreign ?w2 post c" by (rule foreign_cong)
    with dpost have "cs_conns (fold (autoPingOne E now) post ?w2) c = cs_conns ?w2 c
       \<and> pingsOn (cs_wire (fold (autoPingOne E now) post ?w2)) c = pingsOn (cs_wire ?w2) c"
      by (rule fold_autoPingOne_frame)
    with w2 show ?thesis by (simp add: tick)
  qed
  from p1 c1 p3 c3 show thesis by (rule that)
qed

text \<open>
  C5, as stated, fails: connection 1 is Active, its last inbound packet is 25 seconds old
  and its last ping 30 seconds old. The pass moves it to the inactive list, and its loop
  over the inactive connections then sends a ping on it.
\<close>

theorem C5_counterexample:
  "cs_peers (autoPingAll_tick (\<lambda>pkt c. None) exNow [exKey 2] exStaleUnpinged) (exKey 2)
     = Some (exPeer 2 [] [1])
   \<and> cs_wire (autoPingAll_tick (\<lambda>pkt c. None) exNow [exKey 2] exStaleUnpinged)
     = [(mkPacket CommandPing, 1)]
   \<and> LastPacketIn (exConn ConnectionActive 75000000000 70000000000 0)
     = time_Add exNow (- 25 * Second)"
  by (simp add: pass_eval example_defs exStaleUnpinged_def)

text \<open>
  C5, amended. Let the connection \<open>c\<close> be on the active list of a peer (and of no other
  peer of the pass), with status Active and its last inbound packet 25 seconds before
  \<open>now\<close>. After the pass of \<open>autoPingAll\<close> at \<open>now\<close> it is off the peer's active list, on
  the peer's inactive list, and has status Inactive. The loop over the active
  connections sends no ping on it; the loop over the inactive connections of the same
  pass sends exactly one ping on it if its \<open>LastPingOut\<close> precedes \<open>now\<close> minus 10 seconds,
  and none otherwise.
\<close>

theorem C5_liveness_timeout:
  assumes "distinct order" and "k \<in> set order" and "cs_peers w k = Some p"
    and "foreign w (removeAll k order) c"
    and "c \<in> set (connectionActive p)"
    and "Status (cs_conns w c) = ConnectionActive"
    and "LastPacketIn (cs_conns w c) = time_Add now (- 25 * Second)"
  shows "\<exists>p'. cs_peers (autoPingAll_tick E now order w) k = Some p'
           \<and> c \<notin> set (connectionActive p')
           \<and> c \<in> set (connectionInactive p')
           \<and> Status (cs_conns (autoPingAll_tick E now order w) c) = ConnectionInactive
           \<and> pingsOn (ps_wire (activePass E now (peerState w p))) c = pingsOn (cs_wire w) c
           \<and> pingsOn (cs_wire (autoPingAll_tick E now order w)) c
               = pingsOn (cs_wire w) c
                 + (if Before (LastPingOut (cs_conns w c)) (thresholdPingOut1 now)
                    then 1 else 0)"
proof -
  have old: "Before (time_Add now (- 25 * Second)) (thresholdInvalidate1 now)"
    by (simp add: Before_def time_Add_def thresholdInvalidate1_def
        connectionInvalidate_def Second_def)
  have mem0: "c \<in> set (connectionActive (ps_peer (peerState w p)))"
    using assms(5) by (simp add: peerState_def)
  have stale0: "staleActive now c (peerState w p)"
    using assms(6,7) old by (simp add: staleActive_def peerState_def)
  from autoPingPeer_stale [OF mem0 stale0, of E]
  have act: "pingsOn (ps_wire (activePass E now (peerState w p))) c = pingsOn (cs_wire w) c"
    by (simp add: peerState_def)
  from assms(1-3) show ?thesis
  proof (rule tick_at_peer [where E = E and now = now])
    fix w1
    assume p1: "cs_peers w1 k = Some p"
      and c1: "\<And>c. foreign w (removeAll k order) c \<Longrightarrow>
           cs_conns w1 c = cs_conns w c \<and> pingsOn (cs_wire w1) c = pingsOn (cs_wire w) c"
      and p3: "cs_peers (autoPingAll_tick E now order w) k
           = Some (ps_peer (autoPingPeer E now (peerState w1 p)))"
      and c3: "\<And>c. foreign w (removeAll k order) c \<Longrightarrow>
           cs_conns (autoPingAll_tick E now order w) c
             = ps_conns (autoPingPeer E now (peerState w1 p)) c
           \<and> pingsOn (cs_wire (autoPingAll_tick E now order w)) c
             = pingsOn (ps_wire (autoPingPeer E now (peerState w1 p))) c"
    from c1 [OF assms(4)] have cell: "cs_conns w1 c = cs_conns w c"
      and pings: "pingsOn (cs_wire w1) c = pingsOn (cs_wire w) c"
      by simp_all
    have mem1: "c \<in> set (connectionActive (ps_peer (peerState w1 p)))"
      using assms(5) by (simp add: peerState_def)
    have stale1: "staleActive now c (peerState w1 p)"
      using assms(6,7) old cell by (simp add: staleActive_def peerState_def)
    from autoPingPeer_stale [OF mem1 stale1, of E] c3 [OF assms(4)] p3 cell pings act
    show ?thesis by (simp add: peerState_def)
  qed
qed

theorem C5_witness:
  "\<exists>p'. cs_peers (autoPingAll_tick (\<lambda>pkt c. None) exNow [exKey 3, exKey 2] exStale) (exKey 2) = Some p'
      \<and> 1 \<notin> set (connectionActive p')
      \<and> 1 \<in> set (connectionInactive p')
      \<and> Status (cs_conns (autoPingAll_tick (\<lambda>pkt c. None) exNow [exKey 3, exKey 2] exStale) 1)
           = ConnectionInactive
      \<and> pingsOn (ps_wire (activePass (\<lambda>pkt c. None) exNow (peerState exStale (exPeer 2 [1, 4] [])))) 1
           = pingsOn (cs_wire exStale) 1
      \<and> pingsOn (cs_wire (autoPingAll_tick (\<lambda>pkt c. None) exNow [exKey 3, exKey 2] exStale)) 1
           = pingsOn (cs_wire exStale) 1
             + (if Before (LastPingOut (cs_conns exStale 1)) (thresholdPingOut1 exNow) then 1 else 0)"
proof -
  have "distinct [exKey 3, exKey 2]" and "exKey 2 \<in> set [exKey 3, exKey 2]"
    and "cs_peers exStale (exKey 2) = Some (exPeer 2 [1, 4] [])"
    and "foreign exStale (removeAll (exKey 2) [exKey 3, exKey 2]) 1"
    and "1 \<in> set (connectionActive (exPeer 2 [1, 4] []))"
    and "Status (cs_conns exStale 1) = ConnectionActive"
    and "LastPacketIn (cs_conns exStale 1) = time_Add exNow (- 25 * Second)"
    by (simp_all add: foreign_def exWorld_def exStale_def exPeer_def exConn_def exNow_def time_Add_def
        Second_def)
  then show ?thesis by (rule C5_liveness_timeout)
qed

section \<open>Redundant connections\<close>

lemma thresholds_redundant:
  "thresholdInvalidate2 now = time_Add now (- (88 * Second))"
  "thresholdPingOut2 now = time_Add now (- (40 * Second))"
  "thresholdInvalidate1 now = time_Add now (- (22 * Second))"
  "thresholdPingOut1 now = time_Add now (- (10 * Second))"
  by (simp_all add: thresholdInvalidate2_def thresholdPingOut2_def thresholdInvalidate1_def
      thresholdPingOut1_def connectionInvalidate_def pingTime_def)

lemma activeStep_quiet:
  "quietRedundant now c s \<Longrightarrow> activeStep E now c s = s"
  by (simp add: quietRedundant_def activeStep_def thresholds_redundant Before_def time_Add_def
      Second_def)

lemma fold_activeStep_quiet:
  assumes "quietRedundant now c s"
  shows "ps_conns (fold (activeStep E now) xs s) c = ps_conns s c
       \<and> (c \<in> set (connectionActive (ps_peer (fold (activeStep E now) xs s))) \<longleftrightarrow> c \<in> set (connectionActive (ps_peer s)))
       \<and> (c \<in> set (connectionInactive (ps_peer (fold (activeStep E now) xs s))) \<longleftrightarrow> c \<in> set (connectionInactive (ps_peer s)))
       \<and> pingsOn (ps_wire (fold (activeStep E now) xs s)) c = pingsOn (ps_wire s) c"
  using assms
proof (induction xs arbitrary: s)
  case Nil
  then show ?case by simp
next
  case (Cons x xs)
  show ?case
  proof (cases "x = c")
    case True
    with Cons.prems have "activeStep E now x s = s" by (simp add: activeStep_quiet)
    with Cons.IH [OF Cons.prems] show ?thesis by simp
  next
    case False
    with Cons.prems have "quietRedundant now c (activeStep E now x s)"
      by (simp add: quietRedundant_def activeStep_frame)
    from Cons.IH [OF this] False show ?thesis by (simp add: activeStep_frame)
  qed
qed

lemma autoPingPeer_quiet:
  assumes "quietRedundant now c s" and "c \<notin> set (connectionInactive (ps_peer s))"
  shows "ps_conns (autoPingPeer E now s) c = ps_conns s c
       \<and> (c \<in> set (connectionActive (ps_peer (autoPingPeer E now s))) \<longleftrightarrow> c \<in> set (connectionActive (ps_peer s)))
       \<and> c \<notin> set (connectionInactive (ps_peer (autoPingPeer E now s)))
       \<and> pingsOn (ps_wire (autoPingPeer E now s)) c = pingsOn (ps_wire s) c"
proof -
  let ?s1 = "activePass E now s"
  from fold_activeStep_quiet [OF assms(1), of E "connectionActive (ps_peer s)"] assms(2)
  have a: "ps_conns ?s1 c = ps_conns s c
       \<and> (c \<in> set (connectionActive (ps_peer ?s1)) \<longleftrightarrow> c \<in> set (connectionActive (ps_peer s)))
       \<and> c \<notin> set (connectionInactive (ps_peer ?s1))
       \<and> pingsOn (ps_wire ?s1) c = pingsOn (ps_wire s) c"
    by (simp add: activePass_def GetConnections_def)
  then have "c \<notin> set (connectionInactive (ps_peer ?s1))" by simp
  from fold_inactiveStep_frame [OF this, of E now ?s1] a
  show ?thesis
    by (simp add: autoPingPeer_def inactivePass_def GetConnections_def)
qed

text \<open>
  C6. The thresholds for redundant connections are \<open>now\<close> minus 88 seconds (invalidate) and
  \<open>now\<close> minus 40 seconds (ping), four times the offsets of 22 and 10 seconds of the normal
  ones. A connection with status Redundant on the active list of a peer (on no other
  list of the pass) whose last inbound packet is 25 seconds before \<open>now\<close> is, after the
  pass of \<open>autoPingAll\<close> at \<open>now\<close>, still on the active list and not on the inactive
  list, its cell is unchanged (the status is still Redundant) and no ping went out on it.
\<close>

theorem C6_redundant_tolerance:
  "thresholdInvalidate2 now = time_Add now (- (88 * Second))
   \<and> thresholdPingOut2 now = time_Add now (- (40 * Second))
   \<and> now - thresholdInvalidate2 now = 4 * (now - thresholdInvalidate1 now)
   \<and> now - thresholdPingOut2 now = 4 * (now - thresholdPingOut1 now)
   \<and> (distinct order \<and> k \<in> set order \<and> cs_peers w k = Some p
        \<and> foreign w (removeAll k order) c
        \<and> c \<in> set (connectionActive p) \<and> c \<notin> set (connectionInactive p)
        \<and> Status (cs_conns w c) = ConnectionRedundant
        \<and> LastPacketIn (cs_conns w c) = time_Add now (- 25 * Second)
      \<longrightarrow> (\<exists>p'. cs_peers (autoPingAll_tick E now order w) k = Some p'
             \<and> c \<in> set (connectionActive p')
             \<and> c \<notin> set (connectionInactive p')
             \<and> cs_conns (autoPingAll_tick E now order w) c = cs_conns w c
             \<and> Status (cs_conns (autoPingAll_tick E now order w) c) = ConnectionRedundant
             \<and> pingsOn (cs_wire (autoPingAll_tick E now order w)) c = pingsOn (cs_wire w) c))"
proof (intro conjI impI)
  show "thresholdInvalidate2 now = time_Add now (- (88 * Second))"
    and "thresholdPingOut2 now = time_Add now (- (40 * Second))"
    by (simp_all add: thresholds_redundant)
  show "now - thresholdInvalidate2 now = 4 * (now - thresholdInvalidate1 now)"
    and "now - thresholdPingOut2 now = 4 * (now - thresholdPingOut1 now)"
    by (simp_all add: thresholds_redundant time_Add_def)
next
  assume h: "distinct order \<and> k \<in> set order \<and> cs_peers w k = Some p
        \<and> foreign w (removeAll k order) c
        \<and> c \<in> set (connectionActive p) \<and> c \<notin> set (connectionInactive p)
        \<and> Status (cs_conns w c) = ConnectionRedundant
        \<and> LastPacketIn (cs_conns w c) = time_Add now (- 25 * Second)"
  then have d: "distinct order" and k: "k \<in> set order" and p: "cs_peers w k = Some p"
    and f: "foreign w (removeAll k order) c" by simp_all
  from d k p
  show "\<exists>p'. cs_peers (autoPingAll_tick E now order w) k = Some p'
             \<and> c \<in> set (connectionActive p')
             \<and> c \<notin> set (connectionInactive p')
             \<and> cs_conns (autoPingAll_tick E now order w) c = cs_conns w c
             \<and> Status (cs_conns (autoPingAll_tick E now order w) c) = ConnectionRedundant
             \<and> pingsOn (cs_wire (autoPingAll_tick E now order w)) c = pingsOn (cs_wire w) c"
  proof (rule tick_at_peer [where E = E and now = now])
    fix w1
    assume p1: "cs_peers w1 k = Some p"
      and c1: "\<And>c. foreign w (removeAll k order) c \<Longrightarrow>
           cs_conns w1 c = cs_conns w c \<and> pingsOn (cs_wire w1) c = pingsOn (cs_wire w) c"
      and p3: "cs_peers (autoPingAll_tick E now order w) k
           = Some (ps_peer (autoPingPeer E now (peerState w1 p)))"
      and c3: "\<And>c. foreign w (removeAll k order) c \<Longrightarrow>
           cs_conns (autoPingAll_tick E now order w) c
             = ps_conns (autoPingPeer E now (peerState w1 p)) c
           \<and> pingsOn (cs_wire (autoPingAll_tick E now order w)) c
             = pingsOn (ps_wire (autoPingPeer E now (peerState w1 p))) c"
    from c1 [OF f] have cell: "cs_conns w1 c = cs_conns w c"
      and pings: "pingsOn (cs_wire w1) c = pingsOn (cs_wire w) c"
      by simp_all
    have q: "quietRedundant now c (peerState w1 p)"
      using h cell
      by (simp add: quietRedundant_def peerState_def thresholds_redundant Before_def
          time_Add_def Second_def)
    have n: "c \<notin> set (connectionInactive (ps_peer (peerState w1 p)))"
      using h by (simp add: peerState_def)
    from autoPingPeer_quiet [OF q n, of E] c3 [OF f] p3 cell pings h
    show ?thesis by (simp add: peerState_def)
  qed
qed

theorem C6_witness:
  "\<exists>p'. cs_peers (autoPingAll_tick (\<lambda>pkt c. None) exNow [exKey 3, exKey 2] exQuiet) (exKey 2) = Some p'
      \<and> 1 \<in> set (connectionActive p')
      \<and> 1 \<notin> set (connectionInactive p')
      \<and> cs_conns (autoPingAll_tick (\<lambda>pkt c. None) exNow [exKey 3, exKey 2] exQuiet) 1 = cs_conns exQuiet 1
      \<and> Status (cs_conns (autoPingAll_tick (\<lambda>pkt c. None) exNow [exKey 3, exKey 2] exQuiet) 1)
           = ConnectionRedundant
      \<and> pingsOn (cs_wire (autoPingAll_tick (\<lambda>pkt c. None) exNow [exKey 3, exKey 2] exQuiet)) 1
           = pingsOn (cs_wire exQuiet) 1"
proof -
  have "distinct [exKey 3, exKey 2] \<and> exKey 2 \<in> set [exKey 3, exKey 2]
        \<and> cs_peers exQuiet (exKey 2) = Some (exPeer 2 [1, 4] [5])
        \<and> foreign exQuiet (removeAll (exKey 2) [exKey 3, exKey 2]) 1
        \<and> 1 \<in> set (connectionActive (exPeer 2 [1, 4] [5]))
        \<and> 1 \<notin> set (connectionInactive (exPeer 2 [1, 4] [5]))
        \<and> Status (cs_conns exQuiet 1) = ConnectionRedundant
        \<and> LastPacketIn (cs_conns exQuiet 1) = time_Add exNow (- 25 * Second)"
    by (simp add: foreign_def exWorld_def exQuiet_def exPeer_def exConn_def exNow_def time_Add_def
        Second_def)
  with C6_redundant_tolerance [of exNow "[exKey 3, exKey 2]" "exKey 2" exQuiet "exPeer 2 [1, 4] [5]" 1 "\<lambda>pkt c. None"]
  show ?thesis by blast
qed

section \<open>Purging inactive connections\<close>

lemma invalidate_wf:
  assumes "wellFormed s" and "x \<in> set (connectionActive (ps_peer s))"
  shows "wellFormed (invalidateActiveConnection now x s)"
  using assms unfolding wellFormed_def list_all_iff
  by (auto simp: distinct_removeAll)

lemma pinged_wf:
  assumes "wellFormed s"
  shows "wellFormed (pinged now x s)"
  using assms unfolding wellFormed_def list_all_iff by auto

lemma activeStep_cases:
  "activeStep E now x s = s
   \<or> activeStep E now x s = pinged now x s
   \<or> activeStep E now x s = invalidateActiveConnection now x s
   \<or> activeStep E now x s = invalidateActiveConnection now x (pinged now x s)"
  by (simp add: activeStep_def sendPing_eq Let_def)

lemma activeStep_wf:
  assumes "wellFormed s" and "x \<in> set (connectionActive (ps_peer s))"
  shows "wellFormed (activeStep E now x s)"
proof -
  from assms(2) have "x \<in> set (connectionActive (ps_peer (pinged now x s)))" by simp
  with assms pinged_wf [OF assms(1), of now x] activeStep_cases [of E now x s]
  show ?thesis by (auto simp: invalidate_wf)
qed

lemma activeStep_lists:
  "set (connectionActive (ps_peer s)) - {x} \<subseteq> set (connectionActive (ps_peer (activeStep E now x s)))
   \<and> set (connectionInactive (ps_peer s)) \<subseteq> set (connectionInactive (ps_peer (activeStep E now x s)))"
  using activeStep_cases [of E now x s] by auto

lemma fold_activeStep_wf:
  assumes "wellFormed s" and "distinct xs" and "set xs \<subseteq> set (connectionActive (ps_peer s))"
  shows "wellFormed (fold (activeStep E now) xs s)
       \<and> set (connectionInactive (ps_peer s))
           \<subseteq> set (connectionInactive (ps_peer (fold (activeStep E now) xs s)))"
  using assms
proof (induction xs arbitrary: s)
  case Nil
  then show ?case by simp
next
  case (Cons x xs)
  let ?s1 = "activeStep E now x s"
  from Cons.prems have wf1: "wellFormed ?s1" by (simp add: activeStep_wf)
  from Cons.prems activeStep_lists [of s x E now]
  have sub: "set xs \<subseteq> set (connectionActive (ps_peer ?s1))" by auto
  from Cons.prems have "distinct xs" by simp
  from Cons.IH [OF wf1 this sub] activeStep_lists [of s x E now]
  show ?case by auto
qed

lemma activePass_wf:
  assumes "wellFormed s"
  shows "wellFormed (activePass E now s)
       \<and> set (connectionInactive (ps_peer s))
           \<subseteq> set (connectionInactive (ps_peer (activePass E now s)))"
proof -
  from assms have "distinct (connectionActive (ps_peer s))" by (simp add: wellFormed_def)
  with assms show ?thesis
    unfolding activePass_def GetConnections_def by (simp add: fold_activeStep_wf)
qed

text \<open>The loop over the inactive connections, on connections of status Inactive: the
  active list stays, the inactive list only shrinks, and with no active connection a
  purge leaves at least two inactive connections.\<close>

lemma inactiveStep_cases:
  assumes "Status (ps_conns s x) = ConnectionInactive"
  shows "ps_peer (inactiveStep E now x s) = ps_peer s
         \<and> (\<forall>y. Status (ps_conns (inactiveStep E now x s) y) = Status (ps_conns s y))
       \<or> inactiveStep E now x s = removeInactiveConnection x s
         \<and> (1 \<le> length (connectionActive (ps_peer s))
             \<or> 2 < length (connectionInactive (ps_peer s)))"
  using assms by (simp add: inactiveStep_def sendPing_eq)

lemma length_removeAll_distinct:
  "distinct xs \<Longrightarrow> length xs - 1 \<le> length (removeAll x xs)"
  by (simp add: distinct_remove1_removeAll [symmetric] length_remove1)

lemma fold_inactiveStep_guard:
  assumes "distinct (connectionInactive (ps_peer s))"
    and "list_all (\<lambda>x. Status (ps_conns s x) = ConnectionInactive) xs"
  shows "connectionActive (ps_peer (fold (inactiveStep E now) xs s)) = connectionActive (ps_peer s)
       \<and> (connectionActive (ps_peer s) = [] \<longrightarrow>
            connectionInactive (ps_peer (fold (inactiveStep E now) xs s)) = connectionInactive (ps_peer s)
            \<or> 2 \<le> length (connectionInactive (ps_peer (fold (inactiveStep E now) xs s))))"
  using assms
proof (induction xs arbitrary: s)
  case Nil
  then show ?case by simp
next
  case (Cons x xs)
  let ?s1 = "inactiveStep E now x s"
  from Cons.prems have st: "Status (ps_conns s x) = ConnectionInactive" by simp
  from inactiveStep_cases [OF st, of E now]
  consider (keep) "ps_peer ?s1 = ps_peer s"
      "\<forall>y. Status (ps_conns ?s1 y) = Status (ps_conns s y)"
    | (purge) "?s1 = removeInactiveConnection x s"
      "1 \<le> length (connectionActive (ps_peer s)) \<or> 2 < length (connectionInactive (ps_peer s))"
    by blast
  then show ?case
  proof cases
    case keep
    with Cons.prems have "distinct (connectionInactive (ps_peer ?s1))"
      and "list_all (\<lambda>x. Status (ps_conns ?s1 x) = ConnectionInactive) xs"
      by simp_all
    from Cons.IH [OF this] keep show ?thesis by simp
  next
    case purge
    with Cons.prems have d1: "distinct (connectionInactive (ps_peer ?s1))"
      and l1: "list_all (\<lambda>x. Status (ps_conns ?s1 x) = ConnectionInactive) xs"
      by (simp_all add: distinct_removeAll)
    have len: "2 \<le> length (connectionInactive (ps_peer ?s1))"
      if "connectionActive (ps_peer s) = []"
    proof -
      from that purge(2) have "2 < length (connectionInactive (ps_peer s))" by simp
      moreover from Cons.prems(1)
      have "length (connectionInactive (ps_peer s)) - 1
              \<le> length (removeAll x (connectionInactive (ps_peer s)))"
        by (rule length_removeAll_distinct)
      ultimately show ?thesis using purge(1) by simp
    qed
    have act: "connectionActive (ps_peer ?s1) = connectionActive (ps_peer s)"
      using purge(1) by simp
    from Cons.IH [OF d1 l1] act len show ?thesis by auto
  qed
qed

lemma autoPingPeer_purged:
  assumes "wellFormed s" and "c \<in> set (connectionInactive (ps_peer s))"
    and "c \<notin> set (connectionInactive (ps_peer (autoPingPeer E now s)))"
  shows "Before (Expires (ps_conns s c)) now
       \<and> (connectionActive (ps_peer (autoPingPeer E now s)) \<noteq> []
           \<or> 2 \<le> length (connectionInactive (ps_peer (autoPingPeer E now s))))"
proof -
  let ?s1 = "activePass E now s"
  have s': "autoPingPeer E now s = fold (inactiveStep E now) (connectionInactive (ps_peer ?s1)) ?s1"
    by (simp add: autoPingPeer_def inactivePass_def GetConnections_def)
  from activePass_wf [OF assms(1), of E now] assms(2)
  have wf1: "wellFormed ?s1" and mem1: "c \<in> set (connectionInactive (ps_peer ?s1))"
    by auto
  from assms(1,2) have "c \<notin> set (connectionActive (ps_peer s))"
    by (auto simp: wellFormed_def)
  then have cell: "ps_conns ?s1 c = ps_conns s c"
    unfolding activePass_def GetConnections_def by (simp add: fold_activeStep_frame)
  from wf1 mem1 have st: "Status (ps_conns ?s1 c) = ConnectionInactive"
    by (simp add: wellFormed_def list_all_iff)
  have expired: "Before (Expires (ps_conns s c)) now"
  proof (rule ccontr)
    assume "\<not> Before (Expires (ps_conns s c)) now"
    with mem1 st cell have "parked now c ?s1" by (simp add: parked_def)
    from fold_inactiveStep_parked [OF this, of E "connectionInactive (ps_peer ?s1)"]
    have "c \<in> set (connectionInactive (ps_peer (autoPingPeer E now s)))"
      unfolding s' by (simp add: parked_def)
    with assms(3) show False by simp
  qed
  from wf1 have "distinct (connectionInactive (ps_peer ?s1))"
    and "list_all (\<lambda>x. Status (ps_conns ?s1 x) = ConnectionInactive) (connectionInactive (ps_peer ?s1))"
    by (simp_all add: wellFormed_def)
  from fold_inactiveStep_guard [OF this, of E now] mem1 assms(3)
  have "connectionActive (ps_peer (autoPingPeer E now s)) \<noteq> []
           \<or> 2 \<le> length (connectionInactive (ps_peer (autoPingPeer E now s)))"
    unfolding s' by auto
  with expired show ?thesis by simp
qed

lemma inactiveStep_purges_iff:
  assumes "c \<in> set (connectionInactive (ps_peer s))"
    and "distinct (connectionInactive (ps_peer s))"
  shows "c \<notin> set (connectionInactive (ps_peer (inactiveStep E now c s)))
     \<longleftrightarrow> Before (Expires (ps_conns s c)) now
         \<and> (1 \<le> length (connectionActive (ps_peer s))
             \<or> 2 \<le> length (removeAll c (connectionInactive (ps_peer s))))"
proof -
  from assms have "length (removeAll c (connectionInactive (ps_peer s)))
      = length (connectionInactive (ps_peer s)) - 1"
    by (simp add: distinct_remove1_removeAll [symmetric] length_remove1)
  moreover from assms(1) have "1 \<le> length (connectionInactive (ps_peer s))"
    by (cases "connectionInactive (ps_peer s)") simp_all
  ultimately have "2 \<le> length (removeAll c (connectionInactive (ps_peer s)))
      \<longleftrightarrow> 2 < length (connectionInactive (ps_peer s))"
    by arith
  with assms(1) show ?thesis
    by (simp add: inactiveStep_def sendPing_eq)
qed

text \<open>
  C2, as stated, fails: a peer has no active connection and the three inactive
  connections 1, 2 and 3, all expired. The pass purges connection 1, although the peer
  has no active connection and only two other inactive ones, which is not more than two.
\<close>

theorem C2_counterexample:
  "cs_peers (autoPingAll_tick (\<lambda>pkt c. None) exNow [exKey 2] exThreeExpired) (exKey 2)
     = Some (exPeer 2 [] [2, 3])
   \<and> Before (Expires (exConn ConnectionInactive 0 99000000000 0)) exNow
   \<and> connectionActive (exPeer 2 [] [1, 2, 3]) = []
   \<and> removeAll 1 (connectionInactive (exPeer 2 [] [1, 2, 3])) = [2, 3]"
  by (simp add: pass_eval example_defs exThreeExpired_def)

text \<open>
  C2, amended. Take a peer whose lists satisfy the connection invariant and whose
  connections are on no other peer's lists, and a connection \<open>c\<close> on its inactive list.
  If \<open>c\<close> is no longer on the inactive list after the pass of \<open>autoPingAll\<close> at \<open>now\<close>,
  then the expiry of \<open>c\<close> had passed and the peer retains at least one active connection
  or at least two other inactive connections; in every other case \<open>c\<close> is still on the
  inactive list after the pass. (The guard of the loop tests for more than two inactive
  connections with the candidate itself counted, lemma \<open>inactiveStep_purges_iff\<close>.)
\<close>

theorem C2_eviction_guard:
  assumes "distinct order" and "k \<in> set order" and "cs_peers w k = Some p"
    and "list_all (foreign w (removeAll k order)) (connectionActive p @ connectionInactive p)"
    and "wellFormed (peerState w p)"
    and "c \<in> set (connectionInactive p)"
    and "cs_peers (autoPingAll_tick E now order w) k = Some p'"
    and "c \<notin> set (connectionInactive p')"
  shows "Before (Expires (cs_conns w c)) now
       \<and> (1 \<le> length (connectionActive p') \<or> 2 \<le> length (connectionInactive p'))"
  using assms(1-3)
proof (rule tick_at_peer [where E = E and now = now])
  fix w1
  assume p1: "cs_peers w1 k = Some p"
    and c1: "\<And>c. foreign w (removeAll k order) c \<Longrightarrow>
         cs_conns w1 c = cs_conns w c \<and> pingsOn (cs_wire w1) c = pingsOn (cs_wire w) c"
    and p3: "cs_peers (autoPingAll_tick E now order w) k
         = Some (ps_peer (autoPingPeer E now (peerState w1 p)))"
  have same: "cs_conns w1 x = cs_conns w x" if "x \<in> set (connectionInactive p)" for x
  proof -
    from that assms(4) have "foreign w (removeAll k order) x" by (simp add: list_all_iff)
    from c1 [OF this] show ?thesis by simp
  qed
  from assms(5) have wf1: "wellFormed (peerState w1 p)"
    unfolding wellFormed_def list_all_iff by (simp add: peerState_def same)
  from p3 assms(7) have p': "p' = ps_peer (autoPingPeer E now (peerState w1 p))" by simp
  have m: "c \<in> set (connectionInactive (ps_peer (peerState w1 p)))"
    using assms(6) by (simp add: peerState_def)
  have n: "c \<notin> set (connectionInactive (ps_peer (autoPingPeer E now (peerState w1 p))))"
    using assms(8) p' by simp
  from autoPingPeer_purged [OF wf1 m n] same [OF assms(6)]
  have "Before (Expires (cs_conns w c)) now
     \<and> (connectionActive p' \<noteq> [] \<or> 2 \<le> length (connectionInactive p'))"
    by (simp add: p' peerState_def)
  then show ?thesis by (cases "connectionActive p'") auto
qed

theorem C2_witness:
  "Before (Expires (cs_conns exOneExpired 1)) exNow
   \<and> (1 \<le> length (connectionActive (exPeer 2 [4] []))
       \<or> 2 \<le> length (connectionInactive (exPeer 2 [4] [])))"
proof -
  have run: "cs_peers (autoPingAll_tick (\<lambda>pkt c. None) exNow [exKey 3, exKey 2] exOneExpired) (exKey 2)
      = Some (exPeer 2 [4] [])"
    by (simp add: pass_eval example_defs exOneExpired_def)
  have "distinct [exKey 3, exKey 2]" and "exKey 2 \<in> set [exKey 3, exKey 2]"
    and "cs_peers exOneExpired (exKey 2) = Some (exPeer 2 [4] [1])"
    and "list_all (foreign exOneExpired (removeAll (exKey 2) [exKey 3, exKey 2]))
           (connectionActive (exPeer 2 [4] [1]) @ connectionInactive (exPeer 2 [4] [1]))"
    and "wellFormed (peerState exOneExpired (exPeer 2 [4] [1]))"
    and "1 \<in> set (connectionInactive (exPeer 2 [4] [1]))"
    by (simp_all add: foreign_def wellFormed_def peerState_def exWorld_def exOneExpired_def exPeer_def
        exConn_def)
  from this run show ?thesis
    by (rule C2_eviction_guard) (simp add: exPeer_def)
qed

section \<open>Removing the listeners of an interface\<close>

text \<open>
  C8 fails on the code. The IPv6 list holds the listeners 1, 2 and 3, all on eth0, and
  eth0 is in the previous snapshot and not in the current one. The removal cycle calls
  \<open>Terminate\<close> on listener 1, then twice on listener 3 and never on listener 2, and leaves
  the listeners 2 and 3 registered; the next cycle, run on the updated snapshot, changes
  nothing. With only the two listeners 1 and 2 on eth0, both are terminated once and
  listener 2 stays registered. The loop deletes from the slice it is ranging over: after
  a deletion the next listener has moved into the slot just visited and is skipped, and
  the last slot is read again.
\<close>

theorem C8_interface_removal_skips:
  "monitorRemovals exNets [''eth0''] Map.empty ([''eth0'' \<mapsto> [''a'', ''b'', ''c'']], exListeners)
     = Some (Map.empty,
             \<lparr>networks4 = mkSlice [] 0,
                networks6 = \<lparr>backing = [Some 2, Some 3, Some 3, None], slen = 2\<rparr>,
                terminated = [1, 3, 3]\<rparr>)
   \<and> elems \<lparr>backing = [Some 2, Some 3, Some 3, None :: net_ptr option], slen = 2\<rparr>
     = [Some 2, Some 3]
   \<and> monitorRemovals exNets [] Map.empty
         (Map.empty,
          \<lparr>networks4 = mkSlice [] 0,
             networks6 = \<lparr>backing = [Some 2, Some 3, Some 3, None], slen = 2\<rparr>,
             terminated = [1, 3, 3]\<rparr>)
     = Some (Map.empty,
             \<lparr>networks4 = mkSlice [] 0,
                networks6 = \<lparr>backing = [Some 2, Some 3, Some 3, None], slen = 2\<rparr>,
                terminated = [1, 3, 3]\<rparr>)
   \<and> matches exNets ''eth0'' 2 \<and> matches exNets ''eth0'' 3
   \<and> networkChangeInterfaceRemove exNets ''eth0''
         \<lparr>networks4 = mkSlice [] 0, networks6 = mkSlice [1, 2] 0, terminated = []\<rparr>
     = Some \<lparr>networks4 = mkSlice [] 0,
              networks6 = \<lparr>backing = [Some 2, Some 2], slen = 1\<rparr>,
              terminated = [1, 2]\<rparr>"
  by (simp add: monitorRemovals_def removedStep_def networkChangeInterfaceRemove_def
      exListeners_def mkSlice_def upt_rec remove6Step_def remove4Step_def removeIndex_def
      sliceTo_def sliceFrom_def append_slice_def elems_def matches_def exNets_def)

end
